theory Spec2Isabelle
  imports Main
begin

section \<open>Shared vocabulary\<close>

text \<open>
  \<^verbatim>\<open>ApiError(statusCode, message)\<close> is the one exception class the services and the
  middleware throw. A thrown error is a value: functions that may throw return
  \<open>ApiError + 'a\<close>, with \<open>Inl\<close> for the throw.
\<close>

datatype ApiError = ApiError (statusCode: nat) (message: string)

text \<open>
  Template literals render a counter in decimal. JavaScript numbers are modelled as
  unbounded naturals or integers: the counters and identifiers of this program are
  database keys and loop counters far below \<open>2^53\<close>.
\<close>

fun string_of_nat :: "nat \<Rightarrow> string" where
  "string_of_nat n =
     (if n < 10 then [''0123456789'' ! n]
      else string_of_nat (n div 10) @ [''0123456789'' ! (n mod 10)])"

declare string_of_nat.simps [simp del]

section \<open>Pagination (src/utils/pagination.ts)\<close>






section \<open>Slug generation (src/utils/slugify.ts)\<close>

text \<open>
  \<^verbatim>\<open>generateSlug\<close> hands the text to the external \<^verbatim>\<open>slugify\<close> package with fixed
  options; the package is a parameter \<open>slugifyLib\<close> here.

  \<^verbatim>\<open>checkExists\<close> is an asynchronous callback that may consult and change state
  outside the function (a database, or a test double that answers from a script), so it
  takes and returns a state \<open>'s\<close>. A pure predicate is the callback that leaves the
  state alone.
\<close>

definition generateSlug :: "(string \<Rightarrow> string) \<Rightarrow> string \<Rightarrow> string" where
  "generateSlug slugifyLib text = slugifyLib text"

text \<open>
  The \<^verbatim>\<open>while (await checkExists(slug))\<close> loop, entered with the current \<open>slug\<close> and
  \<open>counter\<close>. It may run forever, so not returning is the value \<open>None\<close>.
\<close>

partial_function (option) slugLoop ::
  "(string \<Rightarrow> string) \<Rightarrow> string \<Rightarrow> (string \<Rightarrow> 's \<Rightarrow> bool \<times> 's) \<Rightarrow> string \<Rightarrow> nat \<Rightarrow> 's
     \<Rightarrow> (string \<times> 's) option" where
  "slugLoop slugifyLib text checkExists slug counter s =
     (if fst (checkExists slug s)
      then slugLoop slugifyLib text checkExists
             (generateSlug slugifyLib text @ ''-'' @ string_of_nat counter) (counter + 1)
             (snd (checkExists slug s))
      else Some (slug, snd (checkExists slug s)))"

definition generateUniqueSlug ::
  "(string \<Rightarrow> string) \<Rightarrow> string \<Rightarrow> (string \<Rightarrow> 's \<Rightarrow> bool \<times> 's) \<Rightarrow> 's \<Rightarrow> (string \<times> 's) option" where
  "generateUniqueSlug slugifyLib text checkExists s =
     slugLoop slugifyLib text checkExists (generateSlug slugifyLib text) 1 s"

text \<open>
  The candidates in the order the loop tries them: the slugified text, then the same
  text with \<open>-1\<close>, \<open>-2\<close>, ... appended.
\<close>

definition candidate :: "(string \<Rightarrow> string) \<Rightarrow> string \<Rightarrow> nat \<Rightarrow> string" where
  "candidate slugifyLib text k =
     (if k = 0 then generateSlug slugifyLib text
      else generateSlug slugifyLib text @ ''-'' @ string_of_nat k)"

text \<open>A callback that only reads: the predicate \<open>P\<close>, state untouched.\<close>

definition pureCheck :: "(string \<Rightarrow> bool) \<Rightarrow> string \<Rightarrow> 's \<Rightarrow> bool \<times> 's" where
  "pureCheck P slug s = (P slug, s)"

text \<open>
  The test double \<^verbatim>\<open>jest.fn().mockResolvedValueOnce(a1)...mockResolvedValueOnce(an)\<close>:
  it answers from a script, whatever it is asked; once the script is used up the mock
  resolves to \<^verbatim>\<open>undefined\<close>, which is falsy.
\<close>

definition scriptedCheck :: "string \<Rightarrow> bool list \<Rightarrow> bool \<times> bool list" where
  "scriptedCheck slug answers = (case answers of [] \<Rightarrow> (False, []) | a # rest \<Rightarrow> (a, rest))"

section \<open>The database as the services see it\<close>

text \<open>
  The services reach the database through the ORM client only. A table is the list of its
  rows in insertion order; \<^verbatim>\<open>findUnique\<close> by primary key returns the row with that key,
  \<^verbatim>\<open>update\<close> rewrites it, \<^verbatim>\<open>delete\<close> removes it, \<^verbatim>\<open>create\<close> appends a row under the next
  key of the table's sequence. \<^verbatim>\<open>update\<close> on a key that has no row throws the client's
  own error, which is not an \<open>ApiError\<close>.

  The clock (\<^verbatim>\<open>new Date()\<close>, column defaults) is an explicit argument \<open>now\<close>. The
  engine's referential checks and the \<^verbatim>\<open>updatedAt\<close> bookkeeping happen below the service
  code and are left out: a row keeps its references as plain columns.
\<close>

datatype Thrown = Api ApiError | RecordNotFound

datatype Role = ADMIN | EDITOR | AUTHOR

datatype ArticleStatus = DRAFT | PUBLISHED | ARCHIVED

datatype CommentStatus = PENDING | APPROVED | REJECTED | SPAM

record UserRow =
  u_id :: nat
  u_email :: string
  u_password :: string
  u_name :: string
  u_role :: Role
  u_avatarUrl :: "string option"
  u_bio :: "string option"
  u_isActive :: bool
  u_createdAt :: nat
  u_updatedAt :: nat

record Article =
  a_id :: nat
  a_title :: string
  a_slug :: string
  a_content :: string
  a_excerpt :: "string option"
  a_featuredImage :: "string option"
  a_authorId :: nat
  a_categoryId :: "nat option"
  a_status :: ArticleStatus
  a_viewCount :: nat
  a_publishedAt :: "nat option"
  a_tagIds :: "nat list"
  a_createdAt :: nat

record Comment =
  c_id :: nat
  c_articleId :: nat
  c_userId :: "nat option"
  c_parentId :: "nat option"
  c_content :: string
  c_authorName :: "string option"
  c_authorEmail :: "string option"
  c_status :: CommentStatus
  c_createdAt :: nat

record Db =
  users :: "UserRow list"
  categories :: "nat list"
  articles :: "Article list"
  comments :: "Comment list"
  nextArticleId :: nat
  nextCommentId :: nat

definition findUnique :: "('r \<Rightarrow> 'k) \<Rightarrow> 'r list \<Rightarrow> 'k \<Rightarrow> 'r option" where
  "findUnique key rows k = find (\<lambda>r. key r = k) rows"

definition updateRow :: "('r \<Rightarrow> 'k) \<Rightarrow> 'k \<Rightarrow> ('r \<Rightarrow> 'r) \<Rightarrow> 'r list \<Rightarrow> 'r list" where
  "updateRow key k f rows = map (\<lambda>r. if key r = k then f r else r) rows"

definition deleteRow :: "('r \<Rightarrow> 'k) \<Rightarrow> 'k \<Rightarrow> 'r list \<Rightarrow> 'r list" where
  "deleteRow key k rows = filter (\<lambda>r. key r \<noteq> k) rows"

text \<open>JavaScript truthiness of an optional number and of an optional string.\<close>

definition truthyNum :: "nat option \<Rightarrow> bool" where
  "truthyNum x = (case x of None \<Rightarrow> False | Some n \<Rightarrow> n \<noteq> 0)"

definition truthyStr :: "string option \<Rightarrow> bool" where
  "truthyStr x = (case x of None \<Rightarrow> False | Some t \<Rightarrow> t \<noteq> [])"

section \<open>Authentication middleware (src/middleware/auth.ts)\<close>

text \<open>
  \<^verbatim>\<open>verifyToken\<close> wraps the external \<^verbatim>\<open>jwt.verify\<close>, which returns the payload or
  throws; it is a parameter. The request carries the \<^verbatim>\<open>Authorization\<close> header and the
  \<^verbatim>\<open>user\<close> slot the middleware fills. The middleware ends by calling \<^verbatim>\<open>next()\<close> or
  \<^verbatim>\<open>next(error)\<close>: the second component of the result is the argument of that call.
\<close>

datatype JwtError = JsonWebTokenError | TokenExpiredError

record JwtPayload =
  jp_userId :: nat
  jp_email :: string
  jp_role :: string

record ReqUser =
  ru_id :: nat
  ru_email :: string
  ru_name :: string
  ru_role :: Role
  ru_avatarUrl :: "string option"
  ru_bio :: "string option"
  ru_isActive :: bool
  ru_createdAt :: nat
  ru_updatedAt :: nat

record Request =
  authorization :: "string option"
  user :: "ReqUser option"

text \<open>The \<^verbatim>\<open>select\<close> of the user query: every column but the password.\<close>

definition selectUser :: "UserRow \<Rightarrow> ReqUser" where
  "selectUser u =
     \<lparr>ru_id = u_id u, ru_email = u_email u, ru_name = u_name u, ru_role = u_role u,
      ru_avatarUrl = u_avatarUrl u, ru_bio = u_bio u, ru_isActive = u_isActive u,
      ru_createdAt = u_createdAt u, ru_updatedAt = u_updatedAt u\<rparr>"

definition startsWith :: "string \<Rightarrow> string \<Rightarrow> bool" where
  "startsWith t p = (take (length p) t = p)"

text \<open>\<^verbatim>\<open>authHeader && authHeader.startsWith('Bearer ')\<close>; a missing header is falsy.\<close>

definition hasBearer :: "string option \<Rightarrow> bool" where
  "hasBearer h = (case h of None \<Rightarrow> False | Some t \<Rightarrow> t \<noteq> [] \<and> startsWith t ''Bearer '')"

definition bearerToken :: "string option \<Rightarrow> string" where
  "bearerToken h = (case h of None \<Rightarrow> [] | Some t \<Rightarrow> drop 7 t)"

definition authenticate ::
  "(string \<Rightarrow> JwtError + JwtPayload) \<Rightarrow> Db \<Rightarrow> Request \<Rightarrow> Request \<times> ApiError option" where
  "authenticate verifyToken db req =
     (if \<not> hasBearer (authorization req)
      then (req, Some (ApiError 401 ''No token provided. Please login.''))
      else case verifyToken (bearerToken (authorization req)) of
             Inl e \<Rightarrow> (req, Some (ApiError 401 ''Invalid or expired token. Please login again.''))
           | Inr decoded \<Rightarrow>
               (case findUnique u_id (users db) (jp_userId decoded) of
                  None \<Rightarrow> (req, Some (ApiError 401 ''User not found. Please login again.''))
                | Some u \<Rightarrow>
                    if \<not> u_isActive u
                    then (req, Some (ApiError 403 ''Your account has been deactivated.''))
                    else (req\<lparr>user := Some (selectUser u)\<rparr>, None)))"

definition optionalAuthenticate ::
  "(string \<Rightarrow> JwtError + JwtPayload) \<Rightarrow> Db \<Rightarrow> Request \<Rightarrow> Request \<times> ApiError option" where
  "optionalAuthenticate verifyToken db req =
     (if hasBearer (authorization req)
      then case verifyToken (bearerToken (authorization req)) of
             Inl e \<Rightarrow> (req, None)
           | Inr decoded \<Rightarrow>
               (case findUnique u_id (users db) (jp_userId decoded) of
                  None \<Rightarrow> (req, None)
                | Some u \<Rightarrow>
                    if u_isActive u then (req\<lparr>user := Some (selectUser u)\<rparr>, None)
                    else (req, None))
      else (req, None))"

section \<open>Comment service (src/services/commentService.ts)\<close>

text \<open>
  Each method takes the database and returns what it returned or threw, together with the
  database it leaves behind.
\<close>

record CreateCommentRequest =
  ccr_articleId :: nat
  ccr_content :: string
  ccr_parentId :: "nat option"
  ccr_authorName :: "string option"
  ccr_authorEmail :: "string option"

definition newComment :: "Db \<Rightarrow> nat \<Rightarrow> CreateCommentRequest \<Rightarrow> nat option \<Rightarrow> Comment" where
  "newComment db now data userId =
     \<lparr>c_id = nextCommentId db, c_articleId = ccr_articleId data, c_userId = userId,
      c_parentId = ccr_parentId data, c_content = ccr_content data,
      c_authorName = ccr_authorName data, c_authorEmail = ccr_authorEmail data,
      c_status = PENDING, c_createdAt = now\<rparr>"

definition insertComment :: "Db \<Rightarrow> nat \<Rightarrow> CreateCommentRequest \<Rightarrow> nat option
    \<Rightarrow> (Thrown + Comment) \<times> Db" where
  "insertComment db now data userId =
     (Inr (newComment db now data userId),
      db\<lparr>comments := comments db @ [newComment db now data userId],
         nextCommentId := nextCommentId db + 1\<rparr>)"

text \<open>
  The parent check runs only for a truthy \<^verbatim>\<open>data.parentId\<close>; it yields the error to
  throw, if any.
\<close>

definition checkParent :: "Db \<Rightarrow> CreateCommentRequest \<Rightarrow> ApiError option" where
  "checkParent db data =
     (case ccr_parentId data of
        None \<Rightarrow> None
      | Some p \<Rightarrow>
          if p = 0 then None
          else case findUnique c_id (comments db) p of
                 None \<Rightarrow> Some (ApiError 404 ''Parent comment not found'')
               | Some parentComment \<Rightarrow>
                   if c_articleId parentComment \<noteq> ccr_articleId data
                   then Some (ApiError 400 ''Parent comment belongs to different article'')
                   else None)"

definition createComment :: "Db \<Rightarrow> nat \<Rightarrow> CreateCommentRequest \<Rightarrow> nat option
    \<Rightarrow> (Thrown + Comment) \<times> Db" where
  "createComment db now data userId =
     (case findUnique a_id (articles db) (ccr_articleId data) of
        None \<Rightarrow> (Inl (Api (ApiError 404 ''Article not found'')), db)
      | Some article \<Rightarrow>
          (case checkParent db data of
             Some e \<Rightarrow> (Inl (Api e), db)
           | None \<Rightarrow>
               if \<not> truthyNum userId
                  \<and> (\<not> truthyStr (ccr_authorName data) \<or> \<not> truthyStr (ccr_authorEmail data))
               then (Inl (Api (ApiError 400 ''Guest comments require name and email'')), db)
               else insertComment db now data userId))"

text \<open>
  \<^verbatim>\<open>getArticleComments\<close> is one query with two nested \<^verbatim>\<open>include: { replies }\<close>: the
  top-level comments of the article, their replies, and the replies of those. The rows of
  the innermost level come back without a \<^verbatim>\<open>replies\<close> field, here the empty list.
  Rows with equal \<^verbatim>\<open>createdAt\<close> come in the order a stable sort leaves them.
\<close>

datatype CommentView = CommentView (cv_comment: Comment) (cv_replies: "CommentView list")

definition approvedReplies :: "Db \<Rightarrow> Comment \<Rightarrow> Comment list" where
  "approvedReplies db c =
     sort_key c_createdAt
       (filter (\<lambda>r. c_parentId r = Some (c_id c) \<and> c_status r = APPROVED) (comments db))"

definition getArticleComments :: "Db \<Rightarrow> nat \<Rightarrow> CommentView list" where
  "getArticleComments db articleId =
     map (\<lambda>c. CommentView c
            (map (\<lambda>r. CommentView r (map (\<lambda>q. CommentView q []) (approvedReplies db r)))
               (approvedReplies db c)))
       (rev (sort_key c_createdAt
          (filter (\<lambda>c. c_articleId c = articleId \<and> c_status c = APPROVED \<and> c_parentId c = None)
             (comments db))))"

definition updateComment :: "Db \<Rightarrow> nat \<Rightarrow> string \<Rightarrow> nat \<Rightarrow> string \<Rightarrow> (Thrown + Comment) \<times> Db" where
  "updateComment db i content userId userRole =
     (case findUnique c_id (comments db) i of
        None \<Rightarrow> (Inl (Api (ApiError 404 ''Comment not found'')), db)
      | Some comment \<Rightarrow>
          if c_userId comment \<noteq> Some userId \<and> userRole \<noteq> ''ADMIN''
          then (Inl (Api (ApiError 403 ''You can only edit your own comments'')), db)
          else (Inr (comment\<lparr>c_content := content\<rparr>),
                db\<lparr>comments := updateRow c_id i (\<lambda>r. r\<lparr>c_content := content\<rparr>) (comments db)\<rparr>))"

text \<open>The three moderation methods are one \<^verbatim>\<open>update\<close> each, differing in the status written.\<close>

definition setCommentStatus :: "CommentStatus \<Rightarrow> Db \<Rightarrow> nat \<Rightarrow> (Thrown + Comment) \<times> Db" where
  "setCommentStatus st db i =
     (case findUnique c_id (comments db) i of
        None \<Rightarrow> (Inl RecordNotFound, db)
      | Some comment \<Rightarrow>
          (Inr (comment\<lparr>c_status := st\<rparr>),
           db\<lparr>comments := updateRow c_id i (\<lambda>r. r\<lparr>c_status := st\<rparr>) (comments db)\<rparr>))"

definition approveComment :: "Db \<Rightarrow> nat \<Rightarrow> (Thrown + Comment) \<times> Db" where
  "approveComment db i = setCommentStatus APPROVED db i"

definition rejectComment :: "Db \<Rightarrow> nat \<Rightarrow> (Thrown + Comment) \<times> Db" where
  "rejectComment db i = setCommentStatus REJECTED db i"

definition markAsSpam :: "Db \<Rightarrow> nat \<Rightarrow> (Thrown + Comment) \<times> Db" where
  "markAsSpam db i = setCommentStatus SPAM db i"

text \<open>\<^verbatim>\<open>_count.replies\<close>: the number of rows whose parent is the comment.\<close>

definition countReplies :: "Db \<Rightarrow> nat \<Rightarrow> nat" where
  "countReplies db i = length (filter (\<lambda>r. c_parentId r = Some i) (comments db))"

definition deleteComment :: "Db \<Rightarrow> nat \<Rightarrow> nat \<Rightarrow> string \<Rightarrow> (Thrown + string) \<times> Db" where
  "deleteComment db i userId userRole =
     (case findUnique c_id (comments db) i of
        None \<Rightarrow> (Inl (Api (ApiError 404 ''Comment not found'')), db)
      | Some comment \<Rightarrow>
          if c_userId comment \<noteq> Some userId \<and> userRole \<noteq> ''ADMIN''
          then (Inl (Api (ApiError 403 ''You can only delete your own comments'')), db)
          else if countReplies db i > 0
          then (Inl (Api (ApiError 400
                  (''Cannot delete comment with '' @ string_of_nat (countReplies db i)
                     @ '' replies. Delete replies first.''))), db)
          else (Inr ''Comment deleted successfully'',
                db\<lparr>comments := deleteRow c_id i (comments db)\<rparr>))"

text \<open>The comment operations exposed by the service, and the database after one of them.\<close>

datatype CommentOp =
    CreateComment nat CreateCommentRequest "nat option"
  | UpdateComment nat string nat string
  | ApproveComment nat
  | RejectComment nat
  | MarkAsSpam nat
  | DeleteComment nat nat string

fun applyCommentOp :: "Db \<Rightarrow> CommentOp \<Rightarrow> Db" where
  "applyCommentOp db (CreateComment now data userId) = snd (createComment db now data userId)"
| "applyCommentOp db (UpdateComment i content userId userRole) =
     snd (updateComment db i content userId userRole)"
| "applyCommentOp db (ApproveComment i) = snd (approveComment db i)"
| "applyCommentOp db (RejectComment i) = snd (rejectComment db i)"
| "applyCommentOp db (MarkAsSpam i) = snd (markAsSpam db i)"
| "applyCommentOp db (DeleteComment i userId userRole) = snd (deleteComment db i userId userRole)"

definition runCommentOps :: "Db \<Rightarrow> CommentOp list \<Rightarrow> Db" where
  "runCommentOps db ops = foldl applyCommentOp db ops"

definition commentStatusIn :: "Db \<Rightarrow> nat \<Rightarrow> CommentStatus option" where
  "commentStatusIn db i = map_option c_status (findUnique c_id (comments db) i)"

text \<open>The sequence hands out keys above every key in the table.\<close>

definition commentKeysIssued :: "Db \<Rightarrow> bool" where
  "commentKeysIssued db = list_all (\<lambda>c. c_id c < nextCommentId db) (comments db)"

text \<open>
  What the public listing shows, flattened; and the comments at depth \<open>d\<close> of an
  article's reply tree all of whose ancestors, and themselves, are approved.
\<close>

fun nodes :: "CommentView \<Rightarrow> Comment list" where
  "nodes (CommentView c rs) = c # concat (map nodes rs)"

definition listed :: "Db \<Rightarrow> nat \<Rightarrow> Comment list" where
  "listed db articleId = concat (map nodes (getArticleComments db articleId))"

fun approvedAt :: "Db \<Rightarrow> nat \<Rightarrow> nat \<Rightarrow> Comment \<Rightarrow> bool" where
  "approvedAt db articleId 0 c =
     (c \<in> set (comments db) \<and> c_articleId c = articleId \<and> c_status c = APPROVED
        \<and> c_parentId c = None)"
| "approvedAt db articleId (Suc d) c =
     (c \<in> set (comments db) \<and> c_status c = APPROVED
        \<and> list_ex (\<lambda>p. c_parentId c = Some (c_id p) \<and> approvedAt db articleId d p) (comments db))"

section \<open>Article service (src/services/articleService.ts)\<close>

record CreateArticleRequest =
  car_title :: string
  car_content :: string
  car_excerpt :: "string option"
  car_featuredImage :: "string option"
  car_categoryId :: nat
  car_tagIds :: "nat list option"
  car_status :: "ArticleStatus option"

record UpdateArticleRequest =
  uar_title :: "string option"
  uar_content :: "string option"
  uar_excerpt :: "string option"
  uar_featuredImage :: "string option"
  uar_categoryId :: "nat option"
  uar_tagIds :: "nat list option"
  uar_status :: "ArticleStatus option"

text \<open>
  The two \<^verbatim>\<open>checkExists\<close> callbacks: a row with the slug exists; a row with the slug
  exists and is not the article being updated. Both only read the table.
\<close>

definition slugTaken :: "Db \<Rightarrow> string \<Rightarrow> bool" where
  "slugTaken db slug = (findUnique a_slug (articles db) slug \<noteq> None)"

definition slugTakenByOther :: "Db \<Rightarrow> nat \<Rightarrow> string \<Rightarrow> bool" where
  "slugTakenByOther db i slug =
     (case findUnique a_slug (articles db) slug of None \<Rightarrow> False | Some existing \<Rightarrow> a_id existing \<noteq> i)"

definition newArticle :: "Db \<Rightarrow> nat \<Rightarrow> CreateArticleRequest \<Rightarrow> nat \<Rightarrow> string \<Rightarrow> Article" where
  "newArticle db now data authorId slug =
     \<lparr>a_id = nextArticleId db, a_title = car_title data, a_slug = slug,
      a_content = car_content data, a_excerpt = car_excerpt data,
      a_featuredImage = car_featuredImage data, a_authorId = authorId,
      a_categoryId = Some (car_categoryId data),
      a_status = (case car_status data of None \<Rightarrow> DRAFT | Some st \<Rightarrow> st),
      a_viewCount = 0,
      a_publishedAt = (if car_status data = Some PUBLISHED then Some now else None),
      a_tagIds = (case car_tagIds data of None \<Rightarrow> [] | Some ts \<Rightarrow> ts),
      a_createdAt = now\<rparr>"

text \<open>
  \<open>None\<close> is the call that never returns (the slug loop running forever); such a call
  writes nothing.
\<close>

definition createArticle ::
  "(string \<Rightarrow> string) \<Rightarrow> Db \<Rightarrow> nat \<Rightarrow> CreateArticleRequest \<Rightarrow> nat
     \<Rightarrow> ((Thrown + Article) \<times> Db) option" where
  "createArticle slugifyLib db now data authorId =
     (case generateUniqueSlug slugifyLib (car_title data) (pureCheck (slugTaken db)) () of
        None \<Rightarrow> None
      | Some (slug, u) \<Rightarrow>
          if car_categoryId data \<noteq> 0 \<and> car_categoryId data \<notin> set (categories db)
          then Some (Inl (Api (ApiError 404 ''Category not found'')), db)
          else Some (Inr (newArticle db now data authorId slug),
                     db\<lparr>articles := articles db @ [newArticle db now data authorId slug],
                        nextArticleId := nextArticleId db + 1\<rparr>))"

text \<open>The slug of an update: regenerated when a truthy title differs from the stored one.\<close>

definition updatedSlug ::
  "(string \<Rightarrow> string) \<Rightarrow> Db \<Rightarrow> nat \<Rightarrow> Article \<Rightarrow> UpdateArticleRequest \<Rightarrow> string option" where
  "updatedSlug slugifyLib db i existingArticle data =
     (case uar_title data of
        None \<Rightarrow> Some (a_slug existingArticle)
      | Some t \<Rightarrow>
          if t \<noteq> [] \<and> t \<noteq> a_title existingArticle
          then map_option fst (generateUniqueSlug slugifyLib t (pureCheck (slugTakenByOther db i)) ())
          else Some (a_slug existingArticle))"

text \<open>
  The \<^verbatim>\<open>data\<close> of the update: an \<^verbatim>\<open>undefined\<close> field leaves the column alone. The slug
  and \<^verbatim>\<open>publishedAt\<close> are always written, computed from the row read at the start.
\<close>

definition articleUpdate ::
  "Article \<Rightarrow> nat \<Rightarrow> UpdateArticleRequest \<Rightarrow> string \<Rightarrow> Article \<Rightarrow> Article" where
  "articleUpdate existingArticle now data slug r =
     r\<lparr>a_title := (case uar_title data of None \<Rightarrow> a_title r | Some t \<Rightarrow> t),
       a_slug := slug,
       a_content := (case uar_content data of None \<Rightarrow> a_content r | Some t \<Rightarrow> t),
       a_excerpt := (case uar_excerpt data of None \<Rightarrow> a_excerpt r | Some t \<Rightarrow> Some t),
       a_featuredImage :=
         (case uar_featuredImage data of None \<Rightarrow> a_featuredImage r | Some t \<Rightarrow> Some t),
       a_categoryId := (case uar_categoryId data of None \<Rightarrow> a_categoryId r | Some k \<Rightarrow> Some k),
       a_status := (case uar_status data of None \<Rightarrow> a_status r | Some st \<Rightarrow> st),
       a_publishedAt :=
         (if uar_status data = Some PUBLISHED \<and> a_publishedAt existingArticle = None
          then Some now else a_publishedAt existingArticle),
       a_tagIds := (case uar_tagIds data of None \<Rightarrow> a_tagIds r | Some ts \<Rightarrow> ts)\<rparr>"

definition updateArticle ::
  "(string \<Rightarrow> string) \<Rightarrow> Db \<Rightarrow> nat \<Rightarrow> nat \<Rightarrow> UpdateArticleRequest \<Rightarrow> nat \<Rightarrow> string
     \<Rightarrow> ((Thrown + Article) \<times> Db) option" where
  "updateArticle slugifyLib db now i data userId userRole =
     (case findUnique a_id (articles db) i of
        None \<Rightarrow> Some (Inl (Api (ApiError 404 ''Article not found'')), db)
      | Some existingArticle \<Rightarrow>
          if a_authorId existingArticle \<noteq> userId \<and> userRole \<noteq> ''ADMIN''
          then Some (Inl (Api (ApiError 403 ''You can only edit your own articles'')), db)
          else case updatedSlug slugifyLib db i existingArticle data of
                 None \<Rightarrow> None
               | Some slug \<Rightarrow>
                   Some (Inr (articleUpdate existingArticle now data slug existingArticle),
                         db\<lparr>articles :=
                              updateRow a_id i (articleUpdate existingArticle now data slug)
                                (articles db)\<rparr>))"

definition publishArticle :: "Db \<Rightarrow> nat \<Rightarrow> nat \<Rightarrow> (Thrown + Article) \<times> Db" where
  "publishArticle db now i =
     (case findUnique a_id (articles db) i of
        None \<Rightarrow> (Inl RecordNotFound, db)
      | Some article \<Rightarrow>
          (Inr (article\<lparr>a_status := PUBLISHED, a_publishedAt := Some now\<rparr>),
           db\<lparr>articles :=
                updateRow a_id i (\<lambda>r. r\<lparr>a_status := PUBLISHED, a_publishedAt := Some now\<rparr>)
                  (articles db)\<rparr>))"

definition archiveArticle :: "Db \<Rightarrow> nat \<Rightarrow> (Thrown + Article) \<times> Db" where
  "archiveArticle db i =
     (case findUnique a_id (articles db) i of
        None \<Rightarrow> (Inl RecordNotFound, db)
      | Some article \<Rightarrow>
          (Inr (article\<lparr>a_status := ARCHIVED\<rparr>),
           db\<lparr>articles := updateRow a_id i (\<lambda>r. r\<lparr>a_status := ARCHIVED\<rparr>) (articles db)\<rparr>))"

text \<open>
  The four operations that write an article's status or \<^verbatim>\<open>publishedAt\<close>, the database
  after one of them, and the databases a sequence of them passes through.
\<close>

datatype ArticleOp =
    CreateArticle nat CreateArticleRequest nat
  | UpdateArticle nat nat UpdateArticleRequest nat string
  | PublishArticle nat nat
  | ArchiveArticle nat

fun applyArticleOp :: "(string \<Rightarrow> string) \<Rightarrow> Db \<Rightarrow> ArticleOp \<Rightarrow> Db" where
  "applyArticleOp slugifyLib db (CreateArticle now data authorId) =
     (case createArticle slugifyLib db now data authorId of None \<Rightarrow> db | Some res \<Rightarrow> snd res)"
| "applyArticleOp slugifyLib db (UpdateArticle now i data userId userRole) =
     (case updateArticle slugifyLib db now i data userId userRole of
        None \<Rightarrow> db | Some res \<Rightarrow> snd res)"
| "applyArticleOp slugifyLib db (PublishArticle now i) = snd (publishArticle db now i)"
| "applyArticleOp slugifyLib db (ArchiveArticle i) = snd (archiveArticle db i)"

fun articleTrace :: "(string \<Rightarrow> string) \<Rightarrow> Db \<Rightarrow> ArticleOp list \<Rightarrow> Db list" where
  "articleTrace slugifyLib db [] = [db]"
| "articleTrace slugifyLib db (operation # rest) =
     db # articleTrace slugifyLib (applyArticleOp slugifyLib db operation) rest"

definition articleStatusIn :: "Db \<Rightarrow> nat \<Rightarrow> ArticleStatus option" where
  "articleStatusIn db i = map_option a_status (findUnique a_id (articles db) i)"

definition everPublished :: "nat \<Rightarrow> Db list \<Rightarrow> bool" where
  "everPublished i dbs = list_ex (\<lambda>db. articleStatusIn db i = Some PUBLISHED) dbs"

section \<open>Invariants used in the proofs\<close>

text \<open>
  Comment \<open>i\<close> has been issued its key and is not pending (it is moderated, or gone).
\<close>

definition leftPending :: "Db \<Rightarrow> nat \<Rightarrow> bool" where
  "leftPending db i =
     (commentKeysIssued db \<and> i < nextCommentId db \<and> commentStatusIn db i \<noteq> Some PENDING)"

text \<open>
  \<open>seen\<close> records the articles that have been published so far. Every stored article has
  an issued key, carries a publication time exactly when it is recorded, and is recorded
  when it is published now; only issued keys are recorded.
\<close>

definition publishedInv :: "(nat \<Rightarrow> bool) \<Rightarrow> Db \<Rightarrow> bool" where
  "publishedInv seen db =
     ((\<forall>i a. findUnique a_id (articles db) i = Some a \<longrightarrow>
          i < nextArticleId db \<and> (a_publishedAt a \<noteq> None) = seen i
          \<and> (a_status a = PUBLISHED \<longrightarrow> seen i))
      \<and> (\<forall>i. seen i \<longrightarrow> i < nextArticleId db))"

definition seenAfter :: "(nat \<Rightarrow> bool) \<Rightarrow> Db \<Rightarrow> nat \<Rightarrow> bool" where
  "seenAfter seen db i = (seen i \<or> articleStatusIn db i = Some PUBLISHED)"

section \<open>Sample data\<close>

text \<open>
  A small database and a token verifier on which the results below are run: user 11 is
  active, user 12 is deactivated, nobody has key 19.
\<close>

definition sampleUser :: "nat \<Rightarrow> bool \<Rightarrow> UserRow" where
  "sampleUser i active =
     \<lparr>u_id = i, u_email = ''u@example.org'', u_password = ''hash'', u_name = ''U'',
      u_role = AUTHOR, u_avatarUrl = None, u_bio = None, u_isActive = active,
      u_createdAt = 0, u_updatedAt = 0\<rparr>"

definition sampleDb :: Db where
  "sampleDb =
     \<lparr>users = [sampleUser 11 True, sampleUser 12 False], categories = [], articles = [],
      comments = [], nextArticleId = 41, nextCommentId = 31\<rparr>"

definition sampleVerify :: "string \<Rightarrow> JwtError + JwtPayload" where
  "sampleVerify token =
     (if token = ''t1'' then Inr \<lparr>jp_userId = 11, jp_email = ''u@example.org'', jp_role = ''AUTHOR''\<rparr>
      else if token = ''t2'' then Inr \<lparr>jp_userId = 12, jp_email = ''u@example.org'', jp_role = ''AUTHOR''\<rparr>
      else if token = ''t9'' then Inr \<lparr>jp_userId = 19, jp_email = ''u@example.org'', jp_role = ''AUTHOR''\<rparr>
      else if token = ''old'' then Inl TokenExpiredError
      else Inl JsonWebTokenError)"

definition sampleRequest :: "string option \<Rightarrow> Request" where
  "sampleRequest h = \<lparr>authorization = h, user = None\<rparr>"

text \<open>
  Two articles, 21 and 22 (there is no article 23), and under article 21 a thread of four
  approved comments by user 11, each the reply of the one before: 31, 32, 33, 34.
\<close>

definition sampleArticle :: Article where
  "sampleArticle =
     \<lparr>a_id = 21, a_title = ''Hello World'', a_slug = ''hello-world'', a_content = ''text'',
      a_excerpt = None, a_featuredImage = None, a_authorId = 11, a_categoryId = None,
      a_status = PUBLISHED, a_viewCount = 0, a_publishedAt = Some 5, a_tagIds = [],
      a_createdAt = 5\<rparr>"

definition sampleComment :: "nat \<Rightarrow> nat option \<Rightarrow> CommentStatus \<Rightarrow> Comment" where
  "sampleComment i parent st =
     \<lparr>c_id = i, c_articleId = 21, c_userId = Some 11, c_parentId = parent, c_content = ''x'',
      c_authorName = None, c_authorEmail = None, c_status = st, c_createdAt = i\<rparr>"

definition threadDb :: Db where
  "threadDb =
     sampleDb\<lparr>articles := [sampleArticle, sampleArticle\<lparr>a_id := 22, a_slug := ''other''\<rparr>],
       comments := [sampleComment 31 None APPROVED, sampleComment 32 (Some 31) APPROVED,
                    sampleComment 33 (Some 32) APPROVED, sampleComment 34 (Some 33) APPROVED],
       nextCommentId := 35\<rparr>"

definition guestRequest :: "nat \<Rightarrow> nat option \<Rightarrow> CreateCommentRequest" where
  "guestRequest article parent =
     \<lparr>ccr_articleId = article, ccr_content = ''x'', ccr_parentId = parent,
      ccr_authorName = None, ccr_authorEmail = Some ''g@x.com''\<rparr>"

text \<open>
  The sample thread after user 11 has added comment 35 to article 21 at time 40.
\<close>

definition userRequest :: CreateCommentRequest where
  "userRequest =
     \<lparr>ccr_articleId = 21, ccr_content = ''me too'', ccr_parentId = None,
      ccr_authorName = None, ccr_authorEmail = None\<rparr>"

definition pendingDb :: Db where
  "pendingDb = snd (createComment threadDb 40 userRequest (Some 11))"

text \<open>
  One article, key 41, written by user 11: created as a draft at time 7, published through
  an update at time 8, archived afterwards. \<open>helloDb st p\<close> is the sample database
  holding that article with status \<open>st\<close> and publication time \<open>p\<close>.
\<close>

definition draftRequest :: CreateArticleRequest where
  "draftRequest =
     \<lparr>car_title = ''Hello'', car_content = ''text'', car_excerpt = None,
      car_featuredImage = None, car_categoryId = 0, car_tagIds = None, car_status = None\<rparr>"

definition publishUpdate :: UpdateArticleRequest where
  "publishUpdate =
     \<lparr>uar_title = None, uar_content = None, uar_excerpt = None, uar_featuredImage = None,
      uar_categoryId = None, uar_tagIds = None, uar_status = Some PUBLISHED\<rparr>"

definition helloArticle :: "ArticleStatus \<Rightarrow> nat option \<Rightarrow> Article" where
  "helloArticle st published =
     \<lparr>a_id = 41, a_title = ''Hello'', a_slug = ''Hello'', a_content = ''text'',
      a_excerpt = None, a_featuredImage = None, a_authorId = 11, a_categoryId = Some 0,
      a_status = st, a_viewCount = 0, a_publishedAt = published, a_tagIds = [],
      a_createdAt = 7\<rparr>"

definition helloDb :: "ArticleStatus \<Rightarrow> nat option \<Rightarrow> Db" where
  "helloDb st published = sampleDb\<lparr>articles := [helloArticle st published], nextArticleId := 42\<rparr>"

definition helloOps :: "ArticleOp list" where
  "helloOps =
     [CreateArticle 7 draftRequest 11, UpdateArticle 8 41 publishUpdate 11 ''AUTHOR'',
      ArchiveArticle 41]"

section \<open>Table operations: lookups after a write\<close>

lemma findUnique_updateRow:
  assumes "\<And>r. key (f r) = key r"
  shows "findUnique key (updateRow key k f rows) i
           = (if i = k then map_option f (findUnique key rows i) else findUnique key rows i)"
  using assms by (induction rows) (auto simp: findUnique_def updateRow_def)

lemma findUnique_deleteRow_other:
  "findUnique key (deleteRow key k rows) i = (if i = k then None else findUnique key rows i)"
  by (induction rows) (auto simp: findUnique_def deleteRow_def)

lemma findUnique_append:
  "findUnique key (rows @ [r]) i
     = (case findUnique key rows i of Some x \<Rightarrow> Some x | None \<Rightarrow> if key r = i then Some r else None)"
  by (induction rows) (auto simp: findUnique_def)

lemma findUnique_in_set: "findUnique key rows i = Some r \<Longrightarrow> r \<in> set rows \<and> key r = i"
  by (auto simp: findUnique_def find_Some_iff)

section \<open>Slug generation: results\<close>

text \<open>
  With a callback that only reads, the loop entered at candidate \<open>k\<close> walks over the
  taken candidates and returns at the first free one, \<open>d\<close> steps later.
\<close>

lemma slugLoop_pure_steps:
  "\<not> P (candidate L text (k + d)) \<Longrightarrow> (\<And>j. j < d \<Longrightarrow> P (candidate L text (k + j))) \<Longrightarrow>
   slugLoop L text (pureCheck P) (candidate L text k) (k + 1) s = Some (candidate L text (k + d), s)"
proof (induction d arbitrary: k)
  case 0
  then show ?case by (subst slugLoop.simps) (simp add: pureCheck_def)
next
  case (Suc d)
  have here: "P (candidate L text k)" using Suc.prems(2) [of 0] by simp
  have free: "\<not> P (candidate L text ((k + 1) + d))" using Suc.prems(1) by simp
  have busy: "\<And>j. j < d \<Longrightarrow> P (candidate L text ((k + 1) + j))"
  proof -
    fix j assume "j < d"
    then have "Suc j < Suc d" by simp
    from Suc.prems(2) [OF this] show "P (candidate L text ((k + 1) + j))" by simp
  qed
  have "slugLoop L text (pureCheck P) (candidate L text (k + 1)) ((k + 1) + 1) s
          = Some (candidate L text ((k + 1) + d), s)"
    by (rule Suc.IH [OF free busy])
  with here show ?case
    by (subst slugLoop.simps) (simp add: pureCheck_def candidate_def)
qed

text \<open>
  Whatever the callback does, a returned slug is the one the callback was last asked
  about, and it answered false. The loop may not return at all; this is about the case
  in which it does.
\<close>

lemma slugLoop_last_answer:
  assumes "slugLoop L text checkExists slug counter s = Some y"
  shows "\<exists>s0. checkExists (fst y) s0 = (False, snd y)"
proof (rule slugLoop.raw_induct
    [where P = "\<lambda>L t ce slug counter s y. \<exists>s0. ce (fst y) s0 = (False, snd y)", OF _ assms])
  fix loop :: "(string \<Rightarrow> string) \<Rightarrow> string \<Rightarrow> (string \<Rightarrow> 'a \<Rightarrow> bool \<times> 'a) \<Rightarrow> string \<Rightarrow> nat \<Rightarrow> 'a
     \<Rightarrow> (string \<times> 'a) option"
  fix L t ce slug counter s y
  assume IH: "\<And>L t ce slug counter s y. loop L t ce slug counter s = Some y \<Longrightarrow>
                 \<exists>s0. ce (fst y) s0 = (False, snd y)"
  assume body: "(if fst (ce slug s)
      then loop L t ce (generateSlug L t @ ''-'' @ string_of_nat counter) (counter + 1) (snd (ce slug s))
      else Some (slug, snd (ce slug s))) = Some y"
  show "\<exists>s0. ce (fst y) s0 = (False, snd y)"
  proof (cases "fst (ce slug s)")
    case True
    with body have "loop L t ce (generateSlug L t @ ''-'' @ string_of_nat counter)
            (counter + 1) (snd (ce slug s)) = Some y" by simp
    from IH [OF this] show ?thesis .
  next
    case False
    with body have "y = (slug, snd (ce slug s))" by simp
    with False have "ce (fst y) s = (False, snd y)" by (simp add: prod_eq_iff)
    then show ?thesis ..
  qed
qed

lemma generateUniqueSlug_scripted:
  "generateUniqueSlug L text scriptedCheck [True, True, True, False]
     = Some (generateSlug L text @ ''-3'', [])"
  unfolding generateUniqueSlug_def
  apply (subst slugLoop.simps, simp add: scriptedCheck_def)
  apply (subst slugLoop.simps, simp add: scriptedCheck_def)
  apply (subst slugLoop.simps, simp add: scriptedCheck_def)
  apply (subst slugLoop.simps, simp add: scriptedCheck_def)
  apply (simp add: string_of_nat.simps)
  done

lemma generateUniqueSlug_pure_at:
  assumes "\<not> P (candidate L text n)" and "\<And>k. k < n \<Longrightarrow> P (candidate L text k)"
  shows "generateUniqueSlug L text (pureCheck P) s = Some (candidate L text n, s)"
proof -
  have "slugLoop L text (pureCheck P) (candidate L text 0) (0 + 1) s
          = Some (candidate L text (0 + n), s)"
    by (rule slugLoop_pure_steps) (use assms in simp_all)
  then show ?thesis by (simp add: generateUniqueSlug_def candidate_def)
qed

text \<open>
  C1. For a predicate \<open>P\<close> that reports some candidate of the sequence
  \<open>slugify text, slugify text-1, slugify text-2, ...\<close> free, \<open>generateUniqueSlug\<close> returns,
  and what it returns is the first candidate of that sequence on which \<open>P\<close> is false
  (the counter is appended to the slugified text itself, never to an earlier candidate).
  When the callback answers true, true, true, false in that order the result is the base
  slug followed by \<open>-3\<close>. Whatever the callback, a returned slug is one on which it
  answered false.
\<close>

theorem generateUniqueSlug_first_free:
  "(\<not> P (candidate L text n) \<and> (\<forall>k<n. P (candidate L text k)) \<longrightarrow>
      generateUniqueSlug L text (pureCheck P) s = Some (candidate L text n, s))
   \<and> ((\<exists>n. \<not> P (candidate L text n)) \<longrightarrow>
      (\<exists>m. generateUniqueSlug L text (pureCheck P) s = Some (candidate L text m, s)
           \<and> \<not> P (candidate L text m) \<and> (\<forall>k<m. P (candidate L text k))))
   \<and> generateUniqueSlug L text scriptedCheck [True, True, True, False]
         = Some (generateSlug L text @ ''-3'', [])
   \<and> (generateUniqueSlug L text checkExists s1 = Some (r, s2) \<longrightarrow>
         (\<exists>s0. checkExists r s0 = (False, s2)))"
proof (intro conjI impI)
  assume "\<not> P (candidate L text n) \<and> (\<forall>k<n. P (candidate L text k))"
  then show "generateUniqueSlug L text (pureCheck P) s = Some (candidate L text n, s)"
    by (intro generateUniqueSlug_pure_at) simp_all
next
  assume ex: "\<exists>n. \<not> P (candidate L text n)"
  define m where "m = (LEAST n. \<not> P (candidate L text n))"
  have free: "\<not> P (candidate L text m)"
    unfolding m_def using ex by (rule LeastI_ex)
  have busy: "\<And>k. k < m \<Longrightarrow> P (candidate L text k)"
    unfolding m_def using not_less_Least by blast
  have "generateUniqueSlug L text (pureCheck P) s = Some (candidate L text m, s)"
    using free busy by (rule generateUniqueSlug_pure_at)
  with free busy
  show "\<exists>m. generateUniqueSlug L text (pureCheck P) s = Some (candidate L text m, s)
           \<and> \<not> P (candidate L text m) \<and> (\<forall>k<m. P (candidate L text k))"
    by blast
next
  show "generateUniqueSlug L text scriptedCheck [True, True, True, False]
         = Some (generateSlug L text @ ''-3'', [])"
    by (rule generateUniqueSlug_scripted)
next
  assume "generateUniqueSlug L text checkExists s1 = Some (r, s2)"
  then have "slugLoop L text checkExists (generateSlug L text) 1 s1 = Some (r, s2)"
    by (simp add: generateUniqueSlug_def)
  from slugLoop_last_answer [OF this]
  show "\<exists>s0. checkExists r s0 = (False, s2)" by simp
qed

text \<open>
  The theorem at a concrete input: the text \<open>a\<close> with the identity as slugifier, and a
  table in which \<open>a\<close> and \<open>a-1\<close> are taken. The first free candidate is \<open>a-2\<close>.
\<close>

theorem generateUniqueSlug_first_free_witness:
  "generateUniqueSlug (\<lambda>t. t) ''a'' (pureCheck (\<lambda>x. x = ''a'' \<or> x = ''a-1'')) () = Some (''a-2'', ())
   \<and> (\<exists>m. generateUniqueSlug (\<lambda>t. t) ''a'' (pureCheck (\<lambda>x. x = ''a'' \<or> x = ''a-1'')) ()
            = Some (candidate (\<lambda>t. t) ''a'' m, ()))
   \<and> generateUniqueSlug (\<lambda>t. t) ''a'' scriptedCheck [True, True, True, False] = Some (''a-3'', [])
   \<and> (\<exists>s0. scriptedCheck ''a-3'' s0 = (False, []))"
proof -
  let ?P = "\<lambda>x. x = ''a'' \<or> x = ''a-1''"
  note inst = generateUniqueSlug_first_free
    [of ?P "\<lambda>t. t" "''a''" 2 "()" scriptedCheck "[True, True, True, False]" "''a-3''" "[]"]
  have c0: "candidate (\<lambda>t. t) ''a'' 0 = ''a''"
    by (simp add: candidate_def generateSlug_def)
  have c1: "candidate (\<lambda>t. t) ''a'' 1 = ''a-1''"
    by (simp add: candidate_def generateSlug_def string_of_nat.simps)
  have c2: "candidate (\<lambda>t. t) ''a'' 2 = ''a-2''"
    by (simp add: candidate_def generateSlug_def string_of_nat.simps)
  have lt2: "\<And>k::nat. k < 2 \<Longrightarrow> k = 0 \<or> k = 1" by arith
  have busy: "\<forall>k<2. ?P (candidate (\<lambda>t. t) ''a'' k)"
    using lt2 c0 c1 by auto
  have free: "\<not> ?P (candidate (\<lambda>t. t) ''a'' 2)" by (simp add: c2)
  have r1: "generateUniqueSlug (\<lambda>t. t) ''a'' (pureCheck ?P) () = Some (''a-2'', ())"
    using inst free busy c2 by simp
  have r2: "\<exists>m. generateUniqueSlug (\<lambda>t. t) ''a'' (pureCheck ?P) ()
            = Some (candidate (\<lambda>t. t) ''a'' m, ())"
    using inst free by blast
  have r3: "generateUniqueSlug (\<lambda>t. t) ''a'' scriptedCheck [True, True, True, False] = Some (''a-3'', [])"
    using inst by (simp add: generateSlug_def)
  have r4: "\<exists>s0. scriptedCheck ''a-3'' s0 = (False, [])"
    using inst r3 by blast
  from r1 r2 r3 r4 show ?thesis by blast
qed

section \<open>Authentication: results\<close>


text \<open>The sample database answers the three lookups the runs below make.\<close>

lemma sample_lookup:
  "findUnique u_id (users sampleDb) 11 = Some (sampleUser 11 True)"
  "findUnique u_id (users sampleDb) 12 = Some (sampleUser 12 False)"
  "findUnique u_id (users sampleDb) 19 = None"
  by (simp_all add: findUnique_def sampleDb_def sampleUser_def)


text \<open>
  C7. \<open>optionalAuthenticate\<close> always calls \<open>next\<close> without an error. With a missing or
  malformed header, a token that does not verify, an unknown user or a deactivated user,
  the request goes on as it came, with no user attached by the middleware. With a valid
  token of an active user the user is attached, and the outcome is that of
  \<open>authenticate\<close> whenever \<open>authenticate\<close> succeeds.
\<close>

theorem optionalAuthenticate_never_fails:
  "snd (optionalAuthenticate verifyToken db req) = None
   \<and> (authorization req = None \<longrightarrow> fst (optionalAuthenticate verifyToken db req) = req)
   \<and> (authorization req = Some h \<and> \<not> startsWith h ''Bearer '' \<longrightarrow>
        fst (optionalAuthenticate verifyToken db req) = req)
   \<and> (authorization req = Some h \<and> startsWith h ''Bearer '' \<and> verifyToken (drop 7 h) = Inl e \<longrightarrow>
        fst (optionalAuthenticate verifyToken db req) = req)
   \<and> (authorization req = Some h \<and> startsWith h ''Bearer '' \<and> verifyToken (drop 7 h) = Inr decoded
        \<and> findUnique u_id (users db) (jp_userId decoded) = None \<longrightarrow>
        fst (optionalAuthenticate verifyToken db req) = req)
   \<and> (authorization req = Some h \<and> startsWith h ''Bearer '' \<and> verifyToken (drop 7 h) = Inr decoded
        \<and> findUnique u_id (users db) (jp_userId decoded) = Some u \<and> \<not> u_isActive u \<longrightarrow>
        fst (optionalAuthenticate verifyToken db req) = req)
   \<and> (authorization req = Some h \<and> startsWith h ''Bearer '' \<and> verifyToken (drop 7 h) = Inr decoded
        \<and> findUnique u_id (users db) (jp_userId decoded) = Some u \<and> u_isActive u \<longrightarrow>
        optionalAuthenticate verifyToken db req = (req\<lparr>user := Some (selectUser u)\<rparr>, None))
   \<and> (snd (authenticate verifyToken db req) = None \<longrightarrow>
        optionalAuthenticate verifyToken db req = authenticate verifyToken db req)"
proof -
  have bearer: "hasBearer (Some h) = startsWith h ''Bearer ''" for h
    by (auto simp: hasBearer_def startsWith_def)
  have noerr: "snd (optionalAuthenticate verifyToken db req) = None"
    by (simp add: optionalAuthenticate_def split: sum.split option.split)
  have same: "snd (authenticate verifyToken db req) = None \<longrightarrow>
        optionalAuthenticate verifyToken db req = authenticate verifyToken db req"
    by (simp add: optionalAuthenticate_def authenticate_def split: sum.split option.split)
  have rest: "(authorization req = None \<longrightarrow> fst (optionalAuthenticate verifyToken db req) = req)
   \<and> (authorization req = Some h \<and> \<not> startsWith h ''Bearer '' \<longrightarrow>
        fst (optionalAuthenticate verifyToken db req) = req)
   \<and> (authorization req = Some h \<and> startsWith h ''Bearer '' \<and> verifyToken (drop 7 h) = Inl e \<longrightarrow>
        fst (optionalAuthenticate verifyToken db req) = req)
   \<and> (authorization req = Some h \<and> startsWith h ''Bearer '' \<and> verifyToken (drop 7 h) = Inr decoded
        \<and> findUnique u_id (users db) (jp_userId decoded) = None \<longrightarrow>
        fst (optionalAuthenticate verifyToken db req) = req)
   \<and> (authorization req = Some h \<and> startsWith h ''Bearer '' \<and> verifyToken (drop 7 h) = Inr decoded
        \<and> findUnique u_id (users db) (jp_userId decoded) = Some u \<and> \<not> u_isActive u \<longrightarrow>
        fst (optionalAuthenticate verifyToken db req) = req)
   \<and> (authorization req = Some h \<and> startsWith h ''Bearer '' \<and> verifyToken (drop 7 h) = Inr decoded
        \<and> findUnique u_id (users db) (jp_userId decoded) = Some u \<and> u_isActive u \<longrightarrow>
        optionalAuthenticate verifyToken db req = (req\<lparr>user := Some (selectUser u)\<rparr>, None))"
    by (simp add: optionalAuthenticate_def bearer bearerToken_def hasBearer_def [of None])
  from noerr same rest show ?thesis by blast
qed

theorem optionalAuthenticate_never_fails_witness:
  "optionalAuthenticate sampleVerify sampleDb (sampleRequest None) = (sampleRequest None, None)
   \<and> optionalAuthenticate sampleVerify sampleDb (sampleRequest (Some ''Basic abc''))
       = (sampleRequest (Some ''Basic abc''), None)
   \<and> optionalAuthenticate sampleVerify sampleDb (sampleRequest (Some ''Bearer old''))
       = (sampleRequest (Some ''Bearer old''), None)
   \<and> optionalAuthenticate sampleVerify sampleDb (sampleRequest (Some ''Bearer t9''))
       = (sampleRequest (Some ''Bearer t9''), None)
   \<and> optionalAuthenticate sampleVerify sampleDb (sampleRequest (Some ''Bearer t2''))
       = (sampleRequest (Some ''Bearer t2''), None)
   \<and> optionalAuthenticate sampleVerify sampleDb (sampleRequest (Some ''Bearer t1''))
       = (\<lparr>authorization = Some ''Bearer t1'', user = Some (selectUser (sampleUser 11 True))\<rparr>, None)
   \<and> optionalAuthenticate sampleVerify sampleDb (sampleRequest (Some ''Bearer t1''))
       = authenticate sampleVerify sampleDb (sampleRequest (Some ''Bearer t1''))"
proof -
  let ?p9 = "\<lparr>jp_userId = 19, jp_email = ''u@example.org'', jp_role = ''AUTHOR''\<rparr>"
  let ?p2 = "\<lparr>jp_userId = 12, jp_email = ''u@example.org'', jp_role = ''AUTHOR''\<rparr>"
  let ?p1 = "\<lparr>jp_userId = 11, jp_email = ''u@example.org'', jp_role = ''AUTHOR''\<rparr>"
  have r1: "optionalAuthenticate sampleVerify sampleDb (sampleRequest None) = (sampleRequest None, None)"
    using optionalAuthenticate_never_fails [of sampleVerify sampleDb "sampleRequest None"]
    by (simp add: sampleRequest_def prod_eq_iff)
  have r2: "optionalAuthenticate sampleVerify sampleDb (sampleRequest (Some ''Basic abc''))
       = (sampleRequest (Some ''Basic abc''), None)"
    using optionalAuthenticate_never_fails
      [of sampleVerify sampleDb "sampleRequest (Some ''Basic abc'')" "''Basic abc''"]
    by (simp add: sampleRequest_def startsWith_def prod_eq_iff)
  have r3: "optionalAuthenticate sampleVerify sampleDb (sampleRequest (Some ''Bearer old''))
       = (sampleRequest (Some ''Bearer old''), None)"
    using optionalAuthenticate_never_fails
      [of sampleVerify sampleDb "sampleRequest (Some ''Bearer old'')" "''Bearer old''" TokenExpiredError]
    by (simp add: sampleRequest_def startsWith_def sampleVerify_def prod_eq_iff)
  have r4: "optionalAuthenticate sampleVerify sampleDb (sampleRequest (Some ''Bearer t9''))
       = (sampleRequest (Some ''Bearer t9''), None)"
    using optionalAuthenticate_never_fails
      [of sampleVerify sampleDb "sampleRequest (Some ''Bearer t9'')" "''Bearer t9''" _ ?p9]
    by (simp add: sampleRequest_def startsWith_def sampleVerify_def sample_lookup prod_eq_iff)
  have r5: "optionalAuthenticate sampleVerify sampleDb (sampleRequest (Some ''Bearer t2''))
       = (sampleRequest (Some ''Bearer t2''), None)"
    using optionalAuthenticate_never_fails
      [of sampleVerify sampleDb "sampleRequest (Some ''Bearer t2'')" "''Bearer t2''" _ ?p2
          "sampleUser 12 False"]
    by (simp add: sampleRequest_def startsWith_def sampleVerify_def sample_lookup prod_eq_iff)
       (simp add: sampleUser_def)
  have r6: "optionalAuthenticate sampleVerify sampleDb (sampleRequest (Some ''Bearer t1''))
       = (\<lparr>authorization = Some ''Bearer t1'', user = Some (selectUser (sampleUser 11 True))\<rparr>, None)"
    using optionalAuthenticate_never_fails
      [of sampleVerify sampleDb "sampleRequest (Some ''Bearer t1'')" "''Bearer t1''" _ ?p1
          "sampleUser 11 True"]
    by (simp add: sampleRequest_def startsWith_def sampleVerify_def sample_lookup)
       (simp add: sampleUser_def)
  have ok: "snd (authenticate sampleVerify sampleDb (sampleRequest (Some ''Bearer t1''))) = None"
    by (simp add: authenticate_def sampleRequest_def hasBearer_def startsWith_def bearerToken_def
        sampleVerify_def sample_lookup) (simp add: sampleUser_def)
  have r7: "optionalAuthenticate sampleVerify sampleDb (sampleRequest (Some ''Bearer t1''))
       = authenticate sampleVerify sampleDb (sampleRequest (Some ''Bearer t1''))"
    using optionalAuthenticate_never_fails
      [of sampleVerify sampleDb "sampleRequest (Some ''Bearer t1'')"] ok
    by blast
  from r1 r2 r3 r4 r5 r6 r7 show ?thesis by blast
qed

section \<open>Comment service: results\<close>

lemma findUnique_deleteRow: "findUnique key (deleteRow key k rows) k = None"
  by (simp add: findUnique_def deleteRow_def find_None_iff)

text \<open>
  C4. A comment with one or more replies is not deleted, whoever asks; when the requester
  is the comment's owner or an admin the rejection has status 400. A deletion that
  succeeds is of a comment with zero replies, and an owner or admin deleting a comment
  with zero replies succeeds.
\<close>

theorem deleteComment_blocked_by_replies:
  "(findUnique c_id (comments db) i = Some comment \<and> 0 < countReplies db i
      \<and> (c_userId comment = Some userId \<or> userRole = ''ADMIN'') \<longrightarrow>
      (\<exists>msg. fst (deleteComment db i userId userRole) = Inl (Api (ApiError 400 msg)))
      \<and> snd (deleteComment db i userId userRole) = db)
   \<and> (0 < countReplies db i \<longrightarrow>
      (\<exists>e. fst (deleteComment db i userId userRole) = Inl e)
      \<and> snd (deleteComment db i userId userRole) = db)
   \<and> (fst (deleteComment db i userId userRole) = Inr m \<longrightarrow>
      countReplies db i = 0
      \<and> findUnique c_id (comments (snd (deleteComment db i userId userRole))) i = None)
   \<and> (findUnique c_id (comments db) i = Some comment \<and> countReplies db i = 0
      \<and> (c_userId comment = Some userId \<or> userRole = ''ADMIN'') \<longrightarrow>
      deleteComment db i userId userRole
        = (Inr ''Comment deleted successfully'', db\<lparr>comments := deleteRow c_id i (comments db)\<rparr>))"
  by (auto simp: deleteComment_def findUnique_deleteRow split: option.splits if_splits)

text \<open>Lookups and reply counts in the sample thread.\<close>

lemma thread_facts:
  "findUnique c_id (comments threadDb) 31 = Some (sampleComment 31 None APPROVED)"
  "findUnique c_id (comments threadDb) 34 = Some (sampleComment 34 (Some 33) APPROVED)"
  "countReplies threadDb 31 = 1"
  "countReplies threadDb 34 = 0"
  by (simp_all add: findUnique_def countReplies_def threadDb_def sampleComment_def)

theorem deleteComment_blocked_by_replies_witness:
  "(\<exists>msg. fst (deleteComment threadDb 31 11 ''AUTHOR'') = Inl (Api (ApiError 400 msg)))
   \<and> (\<exists>msg. fst (deleteComment threadDb 31 12 ''ADMIN'') = Inl (Api (ApiError 400 msg)))
   \<and> snd (deleteComment threadDb 31 11 ''AUTHOR'') = threadDb
   \<and> snd (deleteComment threadDb 31 12 ''EDITOR'') = threadDb
   \<and> deleteComment threadDb 34 11 ''AUTHOR''
        = (Inr ''Comment deleted successfully'',
           threadDb\<lparr>comments := deleteRow c_id 34 (comments threadDb)\<rparr>)
   \<and> countReplies threadDb 34 = 0
   \<and> findUnique c_id (comments (snd (deleteComment threadDb 34 11 ''AUTHOR''))) 34 = None"
proof -
  have own: "c_userId (sampleComment 31 None APPROVED) = Some 11"
            "c_userId (sampleComment 34 (Some 33) APPROVED) = Some 11"
    by (simp_all add: sampleComment_def)
  have r1: "(\<exists>msg. fst (deleteComment threadDb 31 11 ''AUTHOR'') = Inl (Api (ApiError 400 msg)))
      \<and> snd (deleteComment threadDb 31 11 ''AUTHOR'') = threadDb"
    using deleteComment_blocked_by_replies
      [of threadDb 31 "sampleComment 31 None APPROVED" 11 "''AUTHOR''"] thread_facts own
    by simp
  have r2: "\<exists>msg. fst (deleteComment threadDb 31 12 ''ADMIN'') = Inl (Api (ApiError 400 msg))"
    using deleteComment_blocked_by_replies
      [of threadDb 31 "sampleComment 31 None APPROVED" 12 "''ADMIN''"] thread_facts
    by simp
  have r3: "snd (deleteComment threadDb 31 12 ''EDITOR'') = threadDb"
    using deleteComment_blocked_by_replies [of threadDb 31 _ 12 "''EDITOR''"] thread_facts
    by simp
  have r4: "deleteComment threadDb 34 11 ''AUTHOR''
        = (Inr ''Comment deleted successfully'',
           threadDb\<lparr>comments := deleteRow c_id 34 (comments threadDb)\<rparr>)"
    using deleteComment_blocked_by_replies
      [of threadDb 34 "sampleComment 34 (Some 33) APPROVED" 11 "''AUTHOR''"] thread_facts own
    by simp
  have r5: "countReplies threadDb 34 = 0
      \<and> findUnique c_id (comments (snd (deleteComment threadDb 34 11 ''AUTHOR''))) 34 = None"
    using deleteComment_blocked_by_replies
      [of threadDb 34 _ 11 "''AUTHOR''" "''Comment deleted successfully''"] r4
    by simp
  from r1 r2 r3 r4 r5 show ?thesis by blast
qed

text \<open>The status of comment \<open>i\<close> after each comment operation.\<close>

lemma status_after_setCommentStatus:
  "commentStatusIn (snd (setCommentStatus st db j)) i
     = (if i = j \<and> commentStatusIn db i \<noteq> None then Some st else commentStatusIn db i)"
  by (auto simp: setCommentStatus_def commentStatusIn_def findUnique_updateRow split: option.splits)

lemma status_after_updateComment:
  "commentStatusIn (snd (updateComment db j content userId userRole)) i = commentStatusIn db i"
  by (auto simp: updateComment_def commentStatusIn_def findUnique_updateRow option.map_comp comp_def
      split: option.splits)

lemma status_after_deleteComment:
  "commentStatusIn (snd (deleteComment db j userId userRole)) i = Some st
     \<Longrightarrow> commentStatusIn db i = Some st"
  by (auto simp: deleteComment_def commentStatusIn_def findUnique_deleteRow_other
      split: option.splits if_splits)

lemma status_after_createComment:
  "commentStatusIn db i = Some st
     \<Longrightarrow> commentStatusIn (snd (createComment db now data userId)) i = Some st"
  by (auto simp: createComment_def insertComment_def commentStatusIn_def findUnique_append
      split: option.splits if_splits)

lemma status_after_createComment_absent:
  "commentStatusIn db i = None \<Longrightarrow> i \<noteq> nextCommentId db
     \<Longrightarrow> commentStatusIn (snd (createComment db now data userId)) i = None"
  by (auto simp: createComment_def insertComment_def commentStatusIn_def findUnique_append
      newComment_def split: option.splits if_splits)

lemma keysIssued_step: "commentKeysIssued db \<Longrightarrow> commentKeysIssued (applyCommentOp db operation)"
proof (cases operation)
  case (CreateComment now data userId)
  assume "commentKeysIssued db"
  then show ?thesis using CreateComment
    by (auto simp: commentKeysIssued_def createComment_def insertComment_def newComment_def
        list_all_iff split: option.splits if_splits)
next
  case (UpdateComment j content userId userRole)
  assume "commentKeysIssued db"
  then show ?thesis using UpdateComment
    by (auto simp: commentKeysIssued_def updateComment_def updateRow_def list_all_iff
        split: option.splits if_splits)
next
  case (ApproveComment j)
  assume "commentKeysIssued db"
  then show ?thesis using ApproveComment
    by (auto simp: commentKeysIssued_def approveComment_def setCommentStatus_def updateRow_def
        list_all_iff split: option.splits if_splits)
next
  case (RejectComment j)
  assume "commentKeysIssued db"
  then show ?thesis using RejectComment
    by (auto simp: commentKeysIssued_def rejectComment_def setCommentStatus_def updateRow_def
        list_all_iff split: option.splits if_splits)
next
  case (MarkAsSpam j)
  assume "commentKeysIssued db"
  then show ?thesis using MarkAsSpam
    by (auto simp: commentKeysIssued_def markAsSpam_def setCommentStatus_def updateRow_def
        list_all_iff split: option.splits if_splits)
next
  case (DeleteComment j userId userRole)
  assume "commentKeysIssued db"
  then show ?thesis using DeleteComment
    by (auto simp: commentKeysIssued_def deleteComment_def deleteRow_def list_all_iff
        split: option.splits if_splits)
qed

lemma nextCommentId_mono: "nextCommentId db \<le> nextCommentId (applyCommentOp db operation)"
  by (cases operation)
     (auto simp: createComment_def insertComment_def updateComment_def approveComment_def
        rejectComment_def markAsSpam_def setCommentStatus_def deleteComment_def
        split: option.splits if_splits)

lemma leftPending_step: "leftPending db i \<Longrightarrow> leftPending (applyCommentOp db operation) i"
proof -
  assume lp: "leftPending db i"
  have keys: "commentKeysIssued (applyCommentOp db operation)"
    using lp by (simp add: leftPending_def keysIssued_step)
  have below: "i < nextCommentId (applyCommentOp db operation)"
    using lp nextCommentId_mono [of db operation] by (simp add: leftPending_def)
  have notp: "commentStatusIn (applyCommentOp db operation) i \<noteq> Some PENDING"
  proof (cases operation)
    case (CreateComment now data userId)
    show ?thesis
    proof (cases "commentStatusIn db i")
      case None
      with lp have "commentStatusIn (snd (createComment db now data userId)) i = None"
        by (intro status_after_createComment_absent) (simp_all add: leftPending_def)
      with CreateComment show ?thesis by simp
    next
      case (Some st)
      with lp have "st \<noteq> PENDING" by (simp add: leftPending_def)
      with Some status_after_createComment [of db i st now data userId] CreateComment
      show ?thesis by simp
    qed
  next
    case (UpdateComment j content userId userRole)
    with lp show ?thesis by (simp add: status_after_updateComment leftPending_def)
  next
    case (ApproveComment j)
    with lp show ?thesis
      by (simp add: approveComment_def status_after_setCommentStatus leftPending_def)
  next
    case (RejectComment j)
    with lp show ?thesis
      by (simp add: rejectComment_def status_after_setCommentStatus leftPending_def)
  next
    case (MarkAsSpam j)
    with lp show ?thesis
      by (simp add: markAsSpam_def status_after_setCommentStatus leftPending_def)
  next
    case (DeleteComment j userId userRole)
    with lp status_after_deleteComment [of db j userId userRole i PENDING]
    show ?thesis by (auto simp: leftPending_def)
  qed
  from keys below notp show ?thesis by (simp add: leftPending_def)
qed

lemma leftPending_run: "leftPending db i \<Longrightarrow> leftPending (runCommentOps db ops) i"
  unfolding runCommentOps_def
  by (induction ops arbitrary: db) (simp_all add: leftPending_step)

lemma created_pending:
  "fst (createComment db now data userId) = Inr c \<Longrightarrow>
     c_status c = PENDING \<and> c \<in> set (comments (snd (createComment db now data userId)))"
  by (auto simp: createComment_def insertComment_def newComment_def split: option.splits if_splits)

text \<open>
  C6. A comment is created with status PENDING. None of \<open>approveComment\<close>,
  \<open>rejectComment\<close>, \<open>markAsSpam\<close>, \<open>updateComment\<close> makes a comment pending that was
  not pending before. Over any sequence of the service's comment operations (creation and
  deletion included), a comment that has left PENDING is never PENDING again.
\<close>

theorem comment_never_back_to_pending:
  "(fst (createComment db now data userId) = Inr c \<longrightarrow>
      c_status c = PENDING \<and> c \<in> set (comments (snd (createComment db now data userId))))
   \<and> (commentStatusIn (snd (approveComment db j)) i = Some PENDING \<longrightarrow> commentStatusIn db i = Some PENDING)
   \<and> (commentStatusIn (snd (rejectComment db j)) i = Some PENDING \<longrightarrow> commentStatusIn db i = Some PENDING)
   \<and> (commentStatusIn (snd (markAsSpam db j)) i = Some PENDING \<longrightarrow> commentStatusIn db i = Some PENDING)
   \<and> (commentStatusIn (snd (updateComment db j content uid userRole)) i = Some PENDING \<longrightarrow>
        commentStatusIn db i = Some PENDING)
   \<and> (commentKeysIssued db \<and> commentStatusIn db i = Some st \<and> st \<noteq> PENDING \<longrightarrow>
        commentStatusIn (runCommentOps db ops) i \<noteq> Some PENDING)"
proof (intro conjI impI)
  assume "fst (createComment db now data userId) = Inr c"
  then show "c_status c = PENDING" "c \<in> set (comments (snd (createComment db now data userId)))"
    using created_pending by blast+
next
  assume "commentStatusIn (snd (approveComment db j)) i = Some PENDING"
  then show "commentStatusIn db i = Some PENDING"
    by (simp add: approveComment_def status_after_setCommentStatus split: if_splits)
next
  assume "commentStatusIn (snd (rejectComment db j)) i = Some PENDING"
  then show "commentStatusIn db i = Some PENDING"
    by (simp add: rejectComment_def status_after_setCommentStatus split: if_splits)
next
  assume "commentStatusIn (snd (markAsSpam db j)) i = Some PENDING"
  then show "commentStatusIn db i = Some PENDING"
    by (simp add: markAsSpam_def status_after_setCommentStatus split: if_splits)
next
  assume "commentStatusIn (snd (updateComment db j content uid userRole)) i = Some PENDING"
  then show "commentStatusIn db i = Some PENDING"
    by (simp add: status_after_updateComment)
next
  assume a: "commentKeysIssued db \<and> commentStatusIn db i = Some st \<and> st \<noteq> PENDING"
  then obtain r where "findUnique c_id (comments db) i = Some r"
    by (auto simp: commentStatusIn_def)
  then have "r \<in> set (comments db)" "c_id r = i" using findUnique_in_set by fastforce+
  with a have "i < nextCommentId db" by (auto simp: commentKeysIssued_def list_all_iff)
  with a have "leftPending db i" by (simp add: leftPending_def)
  then have "leftPending (runCommentOps db ops) i" by (rule leftPending_run)
  then show "commentStatusIn (runCommentOps db ops) i \<noteq> Some PENDING"
    by (simp add: leftPending_def)
qed

theorem comment_never_back_to_pending_witness:
  "c_status (newComment threadDb 40 userRequest (Some 11)) = PENDING
   \<and> newComment threadDb 40 userRequest (Some 11) \<in> set (comments pendingDb)
   \<and> commentStatusIn pendingDb 35 = Some PENDING
   \<and> commentStatusIn (runCommentOps threadDb
         [RejectComment 31, UpdateComment 31 ''y'' 11 ''AUTHOR'', CreateComment 40 userRequest (Some 11),
          ApproveComment 31, DeleteComment 34 11 ''AUTHOR'', MarkAsSpam 31]) 31 \<noteq> Some PENDING"
proof -
  have made: "createComment threadDb 40 userRequest (Some 11)
      = (Inr (newComment threadDb 40 userRequest (Some 11)),
         threadDb\<lparr>comments := comments threadDb @ [newComment threadDb 40 userRequest (Some 11)],
                  nextCommentId := nextCommentId threadDb + 1\<rparr>)"
    by (simp add: createComment_def checkParent_def insertComment_def userRequest_def
        threadDb_def findUnique_def sampleArticle_def truthyNum_def)
  have r1: "c_status (newComment threadDb 40 userRequest (Some 11)) = PENDING
      \<and> newComment threadDb 40 userRequest (Some 11) \<in> set (comments pendingDb)"
    using comment_never_back_to_pending
      [of threadDb 40 userRequest "Some 11" "newComment threadDb 40 userRequest (Some 11)"] made
    by (simp add: pendingDb_def)
  have pend: "commentStatusIn pendingDb 35 = Some PENDING"
    unfolding pendingDb_def made
    by (simp add: commentStatusIn_def findUnique_def threadDb_def sampleComment_def newComment_def)
  have still: "commentStatusIn (snd (approveComment pendingDb 31)) 35 = Some PENDING"
       "commentStatusIn (snd (rejectComment pendingDb 31)) 35 = Some PENDING"
       "commentStatusIn (snd (markAsSpam pendingDb 31)) 35 = Some PENDING"
       "commentStatusIn (snd (updateComment pendingDb 31 ''y'' 11 ''AUTHOR'')) 35 = Some PENDING"
    by (simp_all add: approveComment_def rejectComment_def markAsSpam_def
        status_after_setCommentStatus status_after_updateComment pend)
  have r2: "commentStatusIn pendingDb 35 = Some PENDING"
    using comment_never_back_to_pending [of pendingDb _ _ _ _ 31 35 "''y''" 11 "''AUTHOR''"] still
    by blast
  have keys: "commentKeysIssued threadDb"
    by (simp add: commentKeysIssued_def threadDb_def sampleComment_def)
  have appr: "commentStatusIn threadDb 31 = Some APPROVED"
    by (simp add: commentStatusIn_def findUnique_def threadDb_def sampleComment_def)
  have r3: "commentStatusIn (runCommentOps threadDb
         [RejectComment 31, UpdateComment 31 ''y'' 11 ''AUTHOR'', CreateComment 40 userRequest (Some 11),
          ApproveComment 31, DeleteComment 34 11 ''AUTHOR'', MarkAsSpam 31]) 31 \<noteq> Some PENDING"
    using comment_never_back_to_pending [of threadDb _ _ _ _ _ 31 _ _ _ APPROVED] keys appr
    by blast
  from r1 r2 r3 show ?thesis by blast
qed

text \<open>
  C9, as the code has it. A guest comment (no user id) that lacks the author name or the
  author email, and a reply whose parent belongs to another article, are both refused
  and nothing is created. The checks run in the order article, parent, guest identity:
  the status is 400 when the article exists (and, for the guest rule, a supplied parent
  exists); a missing article or parent is reported first, with 404. The parent check runs
  for a truthy parent id only.
\<close>

theorem createComment_guest_and_parent_rules:
  "(\<not> truthyNum userId \<and> (\<not> truthyStr (ccr_authorName data) \<or> \<not> truthyStr (ccr_authorEmail data)) \<longrightarrow>
      (\<exists>e. fst (createComment db now data userId) = Inl (Api e) \<and> (statusCode e = 400 \<or> statusCode e = 404))
      \<and> snd (createComment db now data userId) = db)
   \<and> (\<not> truthyNum userId \<and> (\<not> truthyStr (ccr_authorName data) \<or> \<not> truthyStr (ccr_authorEmail data))
        \<and> findUnique a_id (articles db) (ccr_articleId data) = Some article
        \<and> (ccr_parentId data = None \<or> ccr_parentId data = Some 0
             \<or> (\<exists>p parent. ccr_parentId data = Some p \<and> findUnique c_id (comments db) p = Some parent)) \<longrightarrow>
      (\<exists>msg. fst (createComment db now data userId) = Inl (Api (ApiError 400 msg))))
   \<and> (ccr_parentId data = Some p \<and> p \<noteq> 0 \<and> findUnique c_id (comments db) p = Some parent
        \<and> c_articleId parent \<noteq> ccr_articleId data \<longrightarrow>
      (\<exists>e. fst (createComment db now data userId) = Inl (Api e) \<and> (statusCode e = 400 \<or> statusCode e = 404))
      \<and> snd (createComment db now data userId) = db)
   \<and> (ccr_parentId data = Some p \<and> p \<noteq> 0 \<and> findUnique c_id (comments db) p = Some parent
        \<and> c_articleId parent \<noteq> ccr_articleId data
        \<and> findUnique a_id (articles db) (ccr_articleId data) = Some article \<longrightarrow>
      fst (createComment db now data userId)
        = Inl (Api (ApiError 400 ''Parent comment belongs to different article'')))"
  by (auto simp: createComment_def checkParent_def split: option.splits if_splits)

text \<open>
  C9 as stated fails: for an article that does not exist, both the guest without a name
  and the reply to a comment of another article get 404, not 400.
\<close>

theorem createComment_status_counterexample:
  "\<not> truthyNum None \<and> \<not> truthyStr (ccr_authorName (guestRequest 23 None))
   \<and> createComment threadDb 0 (guestRequest 23 None) None
        = (Inl (Api (ApiError 404 ''Article not found'')), threadDb)
   \<and> findUnique c_id (comments threadDb) 31 = Some (sampleComment 31 None APPROVED)
   \<and> c_articleId (sampleComment 31 None APPROVED) \<noteq> ccr_articleId (guestRequest 23 (Some 31))
   \<and> createComment threadDb 0 (guestRequest 23 (Some 31)) (Some 11)
        = (Inl (Api (ApiError 404 ''Article not found'')), threadDb)"
  by (simp add: createComment_def guestRequest_def threadDb_def sampleDb_def findUnique_def
      truthyNum_def truthyStr_def sampleComment_def sampleArticle_def)

theorem createComment_guest_and_parent_rules_witness:
  "(\<exists>msg. fst (createComment threadDb 0 (guestRequest 21 None) None) = Inl (Api (ApiError 400 msg)))
   \<and> snd (createComment threadDb 0 (guestRequest 21 None) None) = threadDb
   \<and> fst (createComment threadDb 0 (guestRequest 22 (Some 31)) (Some 11))
        = Inl (Api (ApiError 400 ''Parent comment belongs to different article''))
   \<and> snd (createComment threadDb 0 (guestRequest 22 (Some 31)) (Some 11)) = threadDb"
proof -
  have guest: "\<not> truthyNum None" "\<not> truthyStr (ccr_authorName (guestRequest 21 None))"
    "ccr_parentId (guestRequest 21 None) = None"
    "findUnique a_id (articles threadDb) (ccr_articleId (guestRequest 21 None)) = Some sampleArticle"
    by (simp_all add: truthyNum_def truthyStr_def guestRequest_def threadDb_def findUnique_def
        sampleArticle_def)
  have reply: "ccr_parentId (guestRequest 22 (Some 31)) = Some 31"
    "findUnique c_id (comments threadDb) 31 = Some (sampleComment 31 None APPROVED)"
    "c_articleId (sampleComment 31 None APPROVED) \<noteq> ccr_articleId (guestRequest 22 (Some 31))"
    "findUnique a_id (articles threadDb) (ccr_articleId (guestRequest 22 (Some 31)))
       = Some (sampleArticle\<lparr>a_id := 22, a_slug := ''other''\<rparr>)"
    by (simp_all add: guestRequest_def threadDb_def findUnique_def sampleComment_def
        sampleArticle_def)
  have r1: "(\<exists>msg. fst (createComment threadDb 0 (guestRequest 21 None) None) = Inl (Api (ApiError 400 msg)))
      \<and> snd (createComment threadDb 0 (guestRequest 21 None) None) = threadDb"
    using createComment_guest_and_parent_rules
      [of None "guestRequest 21 None" threadDb 0 sampleArticle] guest
    by simp
  have r2: "fst (createComment threadDb 0 (guestRequest 22 (Some 31)) (Some 11))
        = Inl (Api (ApiError 400 ''Parent comment belongs to different article''))
      \<and> snd (createComment threadDb 0 (guestRequest 22 (Some 31)) (Some 11)) = threadDb"
    using createComment_guest_and_parent_rules
      [of "Some 11" "guestRequest 22 (Some 31)" threadDb 0
          "sampleArticle\<lparr>a_id := 22, a_slug := ''other''\<rparr>" 31
          "sampleComment 31 None APPROVED"] reply
    by simp
  from r1 r2 show ?thesis by blast
qed

text \<open>The listing as a set: the approved comments at depths 0, 1 and 2.\<close>

lemma set_approvedReplies:
  "set (approvedReplies db c)
     = {r \<in> set (comments db). c_parentId r = Some (c_id c) \<and> c_status r = APPROVED}"
  by (auto simp: approvedReplies_def)

lemma set_listed:
  "set (listed db a) =
     {c. approvedAt db a 0 c} \<union> {c. approvedAt db a (Suc 0) c} \<union> {c. approvedAt db a (Suc (Suc 0)) c}"
  unfolding listed_def getArticleComments_def
  by (auto simp: set_approvedReplies list_ex_iff)

text \<open>
  C3, as the code has it. The public listing of an article shows approved comments only,
  at every level it has, and it has three levels: the approved top-level comments of the
  article, their approved replies, and the approved replies of those. A comment is listed
  exactly when it is approved, at depth 0, 1 or 2, under approved ancestors.
\<close>

theorem getArticleComments_approved_two_levels:
  "(c \<in> set (listed db a) \<longrightarrow> c_status c = APPROVED)
   \<and> (c \<in> set (listed db a)
        \<longleftrightarrow> approvedAt db a 0 c \<or> approvedAt db a (Suc 0) c \<or> approvedAt db a (Suc (Suc 0)) c)"
proof -
  have approved: "approvedAt db a d c \<Longrightarrow> c_status c = APPROVED" for d
    by (cases d) simp_all
  show ?thesis using approved by (auto simp: set_listed)
qed

theorem getArticleComments_approved_two_levels_witness:
  "sampleComment 33 (Some 32) APPROVED \<in> set (listed threadDb 21)
   \<and> c_status (sampleComment 33 (Some 32) APPROVED) = APPROVED"
proof -
  have "approvedAt threadDb 21 (Suc (Suc 0)) (sampleComment 33 (Some 32) APPROVED)"
    by (simp add: threadDb_def sampleComment_def sampleDb_def)
  with getArticleComments_approved_two_levels
    [of "sampleComment 33 (Some 32) APPROVED" threadDb 21]
  show ?thesis by blast
qed

text \<open>
  C3 as stated fails: comment 34 of the sample thread is approved, at depth 3 under
  approved ancestors, and is not listed.
\<close>

theorem getArticleComments_depth_counterexample:
  "approvedAt threadDb 21 (Suc (Suc (Suc 0))) (sampleComment 34 (Some 33) APPROVED)
   \<and> sampleComment 34 (Some 33) APPROVED \<notin> set (listed threadDb 21)"
  by (simp add: set_listed threadDb_def sampleComment_def sampleDb_def)

section \<open>Article service: results\<close>

text \<open>Looking an article up after each of the four operations.\<close>

lemma articleUpdate_id [simp]: "a_id (articleUpdate ex now data slug r) = a_id r"
  by (simp add: articleUpdate_def)

lemma lookup_after_publish:
  "findUnique a_id (articles (snd (publishArticle db now j))) i
     = (if i = j then map_option (\<lambda>r. r\<lparr>a_status := PUBLISHED, a_publishedAt := Some now\<rparr>)
                        (findUnique a_id (articles db) i)
        else findUnique a_id (articles db) i)"
  by (auto simp: publishArticle_def findUnique_updateRow split: option.splits)

lemma lookup_after_archive:
  "findUnique a_id (articles (snd (archiveArticle db j))) i
     = (if i = j then map_option (\<lambda>r. r\<lparr>a_status := ARCHIVED\<rparr>) (findUnique a_id (articles db) i)
        else findUnique a_id (articles db) i)"
  by (auto simp: archiveArticle_def findUnique_updateRow split: option.splits)

lemma lookup_after_update:
  assumes "updateArticle L db now j data userId userRole = Some res"
  shows "snd res = db \<or>
         (\<exists>ex slug. findUnique a_id (articles db) j = Some ex
            \<and> nextArticleId (snd res) = nextArticleId db
            \<and> (\<forall>i. findUnique a_id (articles (snd res)) i
                 = (if i = j then Some (articleUpdate ex now data slug ex)
                    else findUnique a_id (articles db) i)))"
  using assms
  by (auto simp: updateArticle_def findUnique_updateRow split: option.splits if_splits)

lemma lookup_after_create:
  assumes "createArticle L db now data authorId = Some res"
  shows "snd res = db \<or>
         (\<exists>slug. nextArticleId (snd res) = nextArticleId db + 1
            \<and> (\<forall>i. findUnique a_id (articles (snd res)) i
                 = (case findUnique a_id (articles db) i of
                      Some x \<Rightarrow> Some x
                    | None \<Rightarrow> if i = nextArticleId db
                              then Some (newArticle db now data authorId slug) else None)))"
  using assms
  by (auto simp: createArticle_def findUnique_append newArticle_def split: option.splits if_splits prod.splits)

text \<open>
  One step of the invariant: every row after the step either comes from a row before it,
  with status and publication time unchanged, or not published and the time unchanged, or
  published with a time; or it is a new row under the next key, with a time exactly when
  it is published.
\<close>

lemma publishedInv_next:
  assumes inv: "publishedInv seen db"
    and nxt: "nextArticleId db \<le> nextArticleId db'"
    and rows: "\<And>i a'. findUnique a_id (articles db') i = Some a' \<Longrightarrow>
        (\<exists>a. findUnique a_id (articles db) i = Some a
           \<and> ((a_publishedAt a' = a_publishedAt a \<and> a_status a' = a_status a)
              \<or> (a_status a' \<noteq> PUBLISHED \<and> a_publishedAt a' = a_publishedAt a)
              \<or> (a_status a' = PUBLISHED \<and> a_publishedAt a' \<noteq> None)))
        \<or> (findUnique a_id (articles db) i = None \<and> i = nextArticleId db
             \<and> nextArticleId db < nextArticleId db'
             \<and> (a_publishedAt a' \<noteq> None) = (a_status a' = PUBLISHED))"
  shows "publishedInv (seenAfter seen db') db'"
proof -
  have old: "\<And>i a. findUnique a_id (articles db) i = Some a \<Longrightarrow>
      i < nextArticleId db \<and> (a_publishedAt a \<noteq> None) = seen i \<and> (a_status a = PUBLISHED \<longrightarrow> seen i)"
    using inv unfolding publishedInv_def by blast
  have seen_below: "\<And>i. seen i \<Longrightarrow> i < nextArticleId db"
    using inv unfolding publishedInv_def by blast
  have row: "i < nextArticleId db' \<and> (a_publishedAt a' \<noteq> None) = (seen i \<or> a_status a' = PUBLISHED)"
    if look: "findUnique a_id (articles db') i = Some a'" for i a'
  proof -
    from rows [OF look] show ?thesis
    proof
      assume "\<exists>a. findUnique a_id (articles db) i = Some a
           \<and> ((a_publishedAt a' = a_publishedAt a \<and> a_status a' = a_status a)
              \<or> (a_status a' \<noteq> PUBLISHED \<and> a_publishedAt a' = a_publishedAt a)
              \<or> (a_status a' = PUBLISHED \<and> a_publishedAt a' \<noteq> None))"
      then obtain a where a: "findUnique a_id (articles db) i = Some a"
        and ch: "(a_publishedAt a' = a_publishedAt a \<and> a_status a' = a_status a)
              \<or> (a_status a' \<noteq> PUBLISHED \<and> a_publishedAt a' = a_publishedAt a)
              \<or> (a_status a' = PUBLISHED \<and> a_publishedAt a' \<noteq> None)"
        by blast
      from old [OF a] nxt have "i < nextArticleId db'" by simp
      moreover from old [OF a] ch
      have "(a_publishedAt a' \<noteq> None) = (seen i \<or> a_status a' = PUBLISHED)" by auto
      ultimately show ?thesis by simp
    next
      assume fresh: "findUnique a_id (articles db) i = None \<and> i = nextArticleId db
             \<and> nextArticleId db < nextArticleId db'
             \<and> (a_publishedAt a' \<noteq> None) = (a_status a' = PUBLISHED)"
      then have "\<not> seen i" using seen_below [of i] by auto
      with fresh show ?thesis by simp
    qed
  qed
  show ?thesis
    unfolding publishedInv_def
  proof (intro conjI allI impI)
    fix i a' assume look: "findUnique a_id (articles db') i = Some a'"
    from row [OF look] show "i < nextArticleId db'" by simp
    from row [OF look] look
    show "(a_publishedAt a' \<noteq> None) = seenAfter seen db' i"
      by (simp add: seenAfter_def articleStatusIn_def)
    assume "a_status a' = PUBLISHED"
    with look show "seenAfter seen db' i" by (simp add: seenAfter_def articleStatusIn_def)
  next
    fix i assume "seenAfter seen db' i"
    then show "i < nextArticleId db'"
      unfolding seenAfter_def articleStatusIn_def
      using seen_below [of i] nxt row [of i] by (cases "findUnique a_id (articles db') i") auto
  qed
qed

lemma publishedInv_publish:
  assumes "publishedInv seen db"
  shows "publishedInv (seenAfter seen (snd (publishArticle db now j))) (snd (publishArticle db now j))"
proof (rule publishedInv_next [OF assms])
  show "nextArticleId db \<le> nextArticleId (snd (publishArticle db now j))"
    by (simp add: publishArticle_def split: option.splits)
next
  fix i a' assume "findUnique a_id (articles (snd (publishArticle db now j))) i = Some a'"
  then show "(\<exists>a. findUnique a_id (articles db) i = Some a
           \<and> ((a_publishedAt a' = a_publishedAt a \<and> a_status a' = a_status a)
              \<or> (a_status a' \<noteq> PUBLISHED \<and> a_publishedAt a' = a_publishedAt a)
              \<or> (a_status a' = PUBLISHED \<and> a_publishedAt a' \<noteq> None)))
        \<or> (findUnique a_id (articles db) i = None \<and> i = nextArticleId db
             \<and> nextArticleId db < nextArticleId (snd (publishArticle db now j))
             \<and> (a_publishedAt a' \<noteq> None) = (a_status a' = PUBLISHED))"
    unfolding lookup_after_publish by (auto split: if_splits)
qed

lemma publishedInv_archive:
  assumes "publishedInv seen db"
  shows "publishedInv (seenAfter seen (snd (archiveArticle db j))) (snd (archiveArticle db j))"
proof (rule publishedInv_next [OF assms])
  show "nextArticleId db \<le> nextArticleId (snd (archiveArticle db j))"
    by (simp add: archiveArticle_def split: option.splits)
next
  fix i a' assume "findUnique a_id (articles (snd (archiveArticle db j))) i = Some a'"
  then show "(\<exists>a. findUnique a_id (articles db) i = Some a
           \<and> ((a_publishedAt a' = a_publishedAt a \<and> a_status a' = a_status a)
              \<or> (a_status a' \<noteq> PUBLISHED \<and> a_publishedAt a' = a_publishedAt a)
              \<or> (a_status a' = PUBLISHED \<and> a_publishedAt a' \<noteq> None)))
        \<or> (findUnique a_id (articles db) i = None \<and> i = nextArticleId db
             \<and> nextArticleId db < nextArticleId (snd (archiveArticle db j))
             \<and> (a_publishedAt a' \<noteq> None) = (a_status a' = PUBLISHED))"
    unfolding lookup_after_archive by (auto split: if_splits)
qed

lemma publishedInv_same:
  assumes "publishedInv seen db"
  shows "publishedInv (seenAfter seen db) db"
  by (rule publishedInv_next [OF assms]) auto

lemma publishedInv_update:
  assumes inv: "publishedInv seen db"
    and res: "updateArticle L db now j data userId userRole = Some res"
  shows "publishedInv (seenAfter seen (snd res)) (snd res)"
proof -
  from lookup_after_update [OF res] show ?thesis
  proof
    assume "snd res = db"
    with inv show ?thesis by (simp add: publishedInv_same)
  next
    assume "\<exists>ex slug. findUnique a_id (articles db) j = Some ex
            \<and> nextArticleId (snd res) = nextArticleId db
            \<and> (\<forall>i. findUnique a_id (articles (snd res)) i
                 = (if i = j then Some (articleUpdate ex now data slug ex)
                    else findUnique a_id (articles db) i))"
    then obtain ex slug where ex: "findUnique a_id (articles db) j = Some ex"
      and nxt: "nextArticleId (snd res) = nextArticleId db"
      and look: "\<And>i. findUnique a_id (articles (snd res)) i
                 = (if i = j then Some (articleUpdate ex now data slug ex)
                    else findUnique a_id (articles db) i)"
      by blast
    show ?thesis
    proof (rule publishedInv_next [OF inv])
      show "nextArticleId db \<le> nextArticleId (snd res)" by (simp add: nxt)
    next
      fix i a' assume "findUnique a_id (articles (snd res)) i = Some a'"
      then show "(\<exists>a. findUnique a_id (articles db) i = Some a
           \<and> ((a_publishedAt a' = a_publishedAt a \<and> a_status a' = a_status a)
              \<or> (a_status a' \<noteq> PUBLISHED \<and> a_publishedAt a' = a_publishedAt a)
              \<or> (a_status a' = PUBLISHED \<and> a_publishedAt a' \<noteq> None)))
        \<or> (findUnique a_id (articles db) i = None \<and> i = nextArticleId db
             \<and> nextArticleId db < nextArticleId (snd res)
             \<and> (a_publishedAt a' \<noteq> None) = (a_status a' = PUBLISHED))"
        unfolding look using ex
        by (cases "uar_status data") (auto simp: articleUpdate_def split: if_splits)
    qed
  qed
qed

lemma publishedInv_create:
  assumes inv: "publishedInv seen db"
    and res: "createArticle L db now data authorId = Some res"
  shows "publishedInv (seenAfter seen (snd res)) (snd res)"
proof -
  from lookup_after_create [OF res] show ?thesis
  proof
    assume "snd res = db"
    with inv show ?thesis by (simp add: publishedInv_same)
  next
    assume "\<exists>slug. nextArticleId (snd res) = nextArticleId db + 1
            \<and> (\<forall>i. findUnique a_id (articles (snd res)) i
                 = (case findUnique a_id (articles db) i of
                      Some x \<Rightarrow> Some x
                    | None \<Rightarrow> if i = nextArticleId db
                              then Some (newArticle db now data authorId slug) else None))"
    then obtain slug where nxt: "nextArticleId (snd res) = nextArticleId db + 1"
      and look: "\<And>i. findUnique a_id (articles (snd res)) i
                 = (case findUnique a_id (articles db) i of
                      Some x \<Rightarrow> Some x
                    | None \<Rightarrow> if i = nextArticleId db
                              then Some (newArticle db now data authorId slug) else None)"
      by blast
    show ?thesis
    proof (rule publishedInv_next [OF inv])
      show "nextArticleId db \<le> nextArticleId (snd res)" by (simp add: nxt)
    next
      fix i a' assume "findUnique a_id (articles (snd res)) i = Some a'"
      then show "(\<exists>a. findUnique a_id (articles db) i = Some a
           \<and> ((a_publishedAt a' = a_publishedAt a \<and> a_status a' = a_status a)
              \<or> (a_status a' \<noteq> PUBLISHED \<and> a_publishedAt a' = a_publishedAt a)
              \<or> (a_status a' = PUBLISHED \<and> a_publishedAt a' \<noteq> None)))
        \<or> (findUnique a_id (articles db) i = None \<and> i = nextArticleId db
             \<and> nextArticleId db < nextArticleId (snd res)
             \<and> (a_publishedAt a' \<noteq> None) = (a_status a' = PUBLISHED))"
        unfolding look nxt
        by (cases "findUnique a_id (articles db) i"; cases "car_status data")
           (auto simp: newArticle_def split: if_splits)
    qed
  qed
qed

lemma publishedInv_step:
  "publishedInv seen db \<Longrightarrow>
   publishedInv (seenAfter seen (applyArticleOp L db operation)) (applyArticleOp L db operation)"
proof (cases operation)
  case (CreateArticle now data authorId)
  assume "publishedInv seen db"
  then show ?thesis using CreateArticle
    by (auto simp: publishedInv_same publishedInv_create split: option.splits)
next
  case (UpdateArticle now j data userId userRole)
  assume "publishedInv seen db"
  then show ?thesis using UpdateArticle
    by (auto simp: publishedInv_same publishedInv_update split: option.splits)
next
  case (PublishArticle now j)
  assume "publishedInv seen db"
  then show ?thesis using PublishArticle by (simp add: publishedInv_publish)
next
  case (ArchiveArticle j)
  assume "publishedInv seen db"
  then show ?thesis using ArchiveArticle by (simp add: publishedInv_archive)
qed

lemma last_articleTrace_Cons:
  "last (articleTrace L db (operation # rest)) = last (articleTrace L (applyArticleOp L db operation) rest)"
  by (cases rest) simp_all

lemma everPublished_start:
  "articleStatusIn db i = Some PUBLISHED \<Longrightarrow> everPublished i (articleTrace L db ops)"
  by (cases ops) (simp_all add: everPublished_def)

lemma publishedInv_trace:
  "publishedInv seen db \<Longrightarrow>
   findUnique a_id (articles (last (articleTrace L db ops))) i = Some a \<Longrightarrow>
   (a_publishedAt a \<noteq> None) = (seen i \<or> everPublished i (articleTrace L db ops))"
proof (induction ops arbitrary: seen db)
  case Nil
  then show ?case
    by (auto simp: publishedInv_def everPublished_def articleStatusIn_def)
next
  case (Cons operation rest)
  let ?db' = "applyArticleOp L db operation"
  have inv': "publishedInv (seenAfter seen ?db') ?db'"
    using Cons.prems(1) by (rule publishedInv_step)
  have look: "findUnique a_id (articles (last (articleTrace L ?db' rest))) i = Some a"
    using Cons.prems(2) by (simp only: last_articleTrace_Cons)
  have ih: "(a_publishedAt a \<noteq> None)
          = (seenAfter seen ?db' i \<or> everPublished i (articleTrace L ?db' rest))"
    by (rule Cons.IH [OF inv' look])
  have start: "articleStatusIn ?db' i = Some PUBLISHED \<Longrightarrow> everPublished i (articleTrace L ?db' rest)"
    by (rule everPublished_start)
  have now_seen: "articleStatusIn db i = Some PUBLISHED \<Longrightarrow> seen i"
    using Cons.prems(1) by (auto simp: publishedInv_def articleStatusIn_def)
  have unfold: "everPublished i (articleTrace L db (operation # rest))
      = (articleStatusIn db i = Some PUBLISHED \<or> everPublished i (articleTrace L ?db' rest))"
    by (simp add: everPublished_def)
  show ?case
    unfolding unfold ih seenAfter_def using start now_seen by blast
qed


lemma articleKeys_step:
  assumes "list_all (\<lambda>a. a_id a < nextArticleId db) (articles db)"
    and "distinct (map a_id (articles db))"
  shows "list_all (\<lambda>a. a_id a < nextArticleId (applyArticleOp L db operation))
           (articles (applyArticleOp L db operation))
         \<and> distinct (map a_id (articles (applyArticleOp L db operation)))"
proof -
  have keep: "map a_id (updateRow a_id k f rows) = map a_id rows"
    if "\<And>r. a_id (f r) = a_id r" for k f and rows :: "Article list"
    using that by (induction rows) (auto simp: updateRow_def)
  have keep_all: "list_all (\<lambda>a. a_id a < n) (updateRow a_id k f rows) = list_all (\<lambda>a. a_id a < n) rows"
    if "\<And>r. a_id (f r) = a_id r" for k f n and rows :: "Article list"
    using that by (induction rows) (auto simp: updateRow_def)
  show ?thesis
  proof (cases operation)
    case (CreateArticle now data authorId)
    with assms show ?thesis
      by (auto simp: createArticle_def newArticle_def list_all_iff
          split: option.splits if_splits prod.splits)
  next
    case (UpdateArticle now j data userId userRole)
    with assms show ?thesis
      by (auto simp: updateArticle_def keep keep_all split: option.splits if_splits)
  next
    case (PublishArticle now j)
    with assms show ?thesis
      by (auto simp: publishArticle_def keep keep_all split: option.splits)
  next
    case (ArchiveArticle j)
    with assms show ?thesis
      by (auto simp: archiveArticle_def keep keep_all split: option.splits)
  qed
qed

lemma articleKeys_trace:
  "list_all (\<lambda>a. a_id a < nextArticleId db) (articles db) \<Longrightarrow> distinct (map a_id (articles db)) \<Longrightarrow>
   distinct (map a_id (articles (last (articleTrace L db ops))))"
proof (induction ops arbitrary: db)
  case Nil
  then show ?case by simp
next
  case (Cons operation rest)
  from articleKeys_step [OF Cons.prems, of L operation]
  have "distinct (map a_id (articles (last (articleTrace L (applyArticleOp L db operation) rest))))"
    by (intro Cons.IH) simp_all
  then show ?case by (simp only: last_articleTrace_Cons)
qed

lemma findUnique_distinct:
  "distinct (map key rows) \<Longrightarrow> r \<in> set rows \<Longrightarrow> findUnique key rows (key r) = Some r"
  by (induction rows) (auto simp: findUnique_def)

lemma publishedInv_empty: "articles db = [] \<Longrightarrow> publishedInv (\<lambda>i. False) db"
  by (simp add: publishedInv_def findUnique_def)

lemma lookup_after_op_keeps_publishedAt:
  assumes "findUnique a_id (articles db) i = Some a" and "a_publishedAt a \<noteq> None"
  shows "\<exists>a'. findUnique a_id (articles (applyArticleOp L db operation)) i = Some a'
            \<and> a_publishedAt a' \<noteq> None"
proof (cases operation)
  case (CreateArticle now data authorId)
  show ?thesis
  proof (cases "createArticle L db now data authorId")
    case None
    with CreateArticle assms show ?thesis by simp
  next
    case (Some res)
    from lookup_after_create [OF Some] assms CreateArticle Some show ?thesis by auto
  qed
next
  case (UpdateArticle now j data userId userRole)
  show ?thesis
  proof (cases "updateArticle L db now j data userId userRole")
    case None
    with UpdateArticle assms show ?thesis by simp
  next
    case (Some res)
    from lookup_after_update [OF Some] assms UpdateArticle Some show ?thesis
      by (auto simp: articleUpdate_def)
  qed
next
  case (PublishArticle now j)
  with assms show ?thesis by (auto simp: lookup_after_publish)
next
  case (ArchiveArticle j)
  with assms show ?thesis by (auto simp: lookup_after_archive)
qed

text \<open>
  C5. Start from a database with no articles and run any sequence of \<open>createArticle\<close>,
  \<open>updateArticle\<close>, \<open>publishArticle\<close>, \<open>archiveArticle\<close>. For every article in the
  database reached, \<open>publishedAt\<close> is set exactly when the article had status PUBLISHED in
  one of the databases passed through. Creation sets it exactly when the article is
  created PUBLISHED; an update to PUBLISHED sets it when it was null, and every other
  update keeps it; no operation resets a set \<open>publishedAt\<close> to null.
\<close>

theorem publishedAt_iff_ever_published:
  "(articles start = [] \<and> a \<in> set (articles (last (articleTrace L start ops))) \<longrightarrow>
      (a_publishedAt a \<noteq> None) = everPublished (a_id a) (articleTrace L start ops))
   \<and> (createArticle L db now data authorId = Some (Inr created, db') \<longrightarrow>
      (a_publishedAt created \<noteq> None) = (car_status data = Some PUBLISHED)
      \<and> (a_status created = PUBLISHED) = (car_status data = Some PUBLISHED))
   \<and> (findUnique a_id (articles db) j = Some existing
        \<and> updateArticle L db now j upd userId userRole = Some (Inr updated, db') \<longrightarrow>
      a_publishedAt updated
        = (if uar_status upd = Some PUBLISHED \<and> a_publishedAt existing = None then Some now
           else a_publishedAt existing)
      \<and> findUnique a_id (articles db') j = Some updated)
   \<and> (findUnique a_id (articles db) i = Some stored \<and> a_publishedAt stored \<noteq> None \<longrightarrow>
      (\<exists>a'. findUnique a_id (articles (applyArticleOp L db operation)) i = Some a'
            \<and> a_publishedAt a' \<noteq> None))"
proof (intro conjI impI)
  assume h: "articles start = [] \<and> a \<in> set (articles (last (articleTrace L start ops)))"
  then have "distinct (map a_id (articles (last (articleTrace L start ops))))"
    by (intro articleKeys_trace) simp_all
  with h have look: "findUnique a_id (articles (last (articleTrace L start ops))) (a_id a) = Some a"
    by (simp add: findUnique_distinct)
  from h have "publishedInv (\<lambda>i. False) start" by (simp add: publishedInv_empty)
  from publishedInv_trace [OF this look]
  show "(a_publishedAt a \<noteq> None) = everPublished (a_id a) (articleTrace L start ops)" by simp
next
  assume "createArticle L db now data authorId = Some (Inr created, db')"
  then have "\<exists>slug. created = newArticle db now data authorId slug"
    by (auto simp: createArticle_def split: option.splits if_splits prod.splits)
  then show "(a_publishedAt created \<noteq> None) = (car_status data = Some PUBLISHED)"
       "(a_status created = PUBLISHED) = (car_status data = Some PUBLISHED)"
    by (auto simp: newArticle_def split: option.splits if_splits)
next
  assume h: "findUnique a_id (articles db) j = Some existing
        \<and> updateArticle L db now j upd userId userRole = Some (Inr updated, db')"
  then have shape: "\<exists>slug. updated = articleUpdate existing now upd slug existing
      \<and> db' = db\<lparr>articles := updateRow a_id j (articleUpdate existing now upd slug) (articles db)\<rparr>"
    by (auto simp: updateArticle_def split: option.splits if_splits)
  then show "a_publishedAt updated
        = (if uar_status upd = Some PUBLISHED \<and> a_publishedAt existing = None then Some now
           else a_publishedAt existing)"
    by (auto simp: articleUpdate_def)
  from shape h show "findUnique a_id (articles db') j = Some updated"
    by (auto simp: findUnique_updateRow)
next
  assume "findUnique a_id (articles db) i = Some stored \<and> a_publishedAt stored \<noteq> None"
  then show "\<exists>a'. findUnique a_id (articles (applyArticleOp L db operation)) i = Some a'
            \<and> a_publishedAt a' \<noteq> None"
    using lookup_after_op_keeps_publishedAt by blast
qed


text \<open>The sample run, step by step.\<close>

lemma hello_steps:
  "applyArticleOp (\<lambda>t. t) sampleDb (CreateArticle 7 draftRequest 11) = helloDb DRAFT None"
  "applyArticleOp (\<lambda>t. t) (helloDb DRAFT None) (UpdateArticle 8 41 publishUpdate 11 ''AUTHOR'')
     = helloDb PUBLISHED (Some 8)"
  "applyArticleOp (\<lambda>t. t) (helloDb PUBLISHED (Some 8)) (ArchiveArticle 41)
     = helloDb ARCHIVED (Some 8)"
proof -
  have free: "\<not> slugTaken sampleDb (candidate (\<lambda>t. t) ''Hello'' 0)"
    by (simp add: slugTaken_def sampleDb_def findUnique_def)
  have slug: "generateUniqueSlug (\<lambda>t. t) ''Hello'' (pureCheck (slugTaken sampleDb)) ()
                = Some (''Hello'', ())"
    using generateUniqueSlug_pure_at [of "slugTaken sampleDb" "\<lambda>t. t" "''Hello''" 0 "()"] free
    by (simp add: candidate_def generateSlug_def)
  have title: "car_title draftRequest = ''Hello''" "car_categoryId draftRequest = 0"
    by (simp_all add: draftRequest_def)
  have made: "createArticle (\<lambda>t. t) sampleDb 7 draftRequest 11
      = Some (Inr (newArticle sampleDb 7 draftRequest 11 ''Hello''),
              sampleDb\<lparr>articles := articles sampleDb @ [newArticle sampleDb 7 draftRequest 11 ''Hello''],
                       nextArticleId := nextArticleId sampleDb + 1\<rparr>)"
    by (simp add: createArticle_def title slug)
  show "applyArticleOp (\<lambda>t. t) sampleDb (CreateArticle 7 draftRequest 11) = helloDb DRAFT None"
    unfolding applyArticleOp.simps made
    by (simp add: draftRequest_def newArticle_def helloDb_def helloArticle_def sampleDb_def)
  show "applyArticleOp (\<lambda>t. t) (helloDb DRAFT None) (UpdateArticle 8 41 publishUpdate 11 ''AUTHOR'')
     = helloDb PUBLISHED (Some 8)"
    by (simp add: updateArticle_def updatedSlug_def publishUpdate_def articleUpdate_def
        updateRow_def findUnique_def helloDb_def helloArticle_def sampleDb_def)
  show "applyArticleOp (\<lambda>t. t) (helloDb PUBLISHED (Some 8)) (ArchiveArticle 41)
     = helloDb ARCHIVED (Some 8)"
    by (simp add: archiveArticle_def updateRow_def findUnique_def helloDb_def helloArticle_def
        sampleDb_def)
qed

lemma hello_trace:
  "articleTrace (\<lambda>t. t) sampleDb helloOps
     = [sampleDb, helloDb DRAFT None, helloDb PUBLISHED (Some 8), helloDb ARCHIVED (Some 8)]"
  by (simp only: helloOps_def articleTrace.simps hello_steps)

theorem publishedAt_iff_ever_published_witness:
  "a_publishedAt (helloArticle ARCHIVED (Some 8)) \<noteq> None
   \<and> everPublished 41 (articleTrace (\<lambda>t. t) sampleDb helloOps)
   \<and> a_publishedAt (helloArticle DRAFT None) = None
   \<and> \<not> everPublished 41 (articleTrace (\<lambda>t. t) sampleDb [CreateArticle 7 draftRequest 11])
   \<and> a_publishedAt (helloArticle PUBLISHED (Some 8)) = Some 8
   \<and> (\<exists>a'. findUnique a_id (articles (helloDb ARCHIVED (Some 8))) 41 = Some a'
          \<and> a_publishedAt a' \<noteq> None)"
proof -
  note trace_fact = publishedAt_iff_ever_published [THEN conjunct1, rule_format]
  note update_fact =
    publishedAt_iff_ever_published [THEN conjunct2, THEN conjunct2, THEN conjunct1, rule_format]
  note keep_fact =
    publishedAt_iff_ever_published [THEN conjunct2, THEN conjunct2, THEN conjunct2, rule_format]
  have ident: "a_id (helloArticle st p) = 41" "a_publishedAt (helloArticle st p) = p" for st p
    by (simp_all add: helloArticle_def)
  have rows: "articles sampleDb = []" "articles (helloDb st p) = [helloArticle st p]" for st p
    by (simp_all add: sampleDb_def helloDb_def)
  have look: "findUnique a_id (articles (helloDb st p)) 41 = Some (helloArticle st p)" for st p
    by (simp add: findUnique_def rows ident)
  have tr1: "articleTrace (\<lambda>t. t) sampleDb [CreateArticle 7 draftRequest 11]
               = [sampleDb, helloDb DRAFT None]"
    by (simp only: articleTrace.simps hello_steps)
  have p1: "articles sampleDb = [] \<and> helloArticle ARCHIVED (Some 8)
              \<in> set (articles (last (articleTrace (\<lambda>t. t) sampleDb helloOps)))"
    by (simp only: hello_trace) (simp add: rows)
  have r1: "(a_publishedAt (helloArticle ARCHIVED (Some 8)) \<noteq> None)
             = everPublished 41 (articleTrace (\<lambda>t. t) sampleDb helloOps)"
    using trace_fact [OF p1] by (simp only: ident)
  have r1': "a_publishedAt (helloArticle ARCHIVED (Some 8)) \<noteq> None"
    by (simp add: ident)
  have p2: "articles sampleDb = [] \<and> helloArticle DRAFT None
              \<in> set (articles (last (articleTrace (\<lambda>t. t) sampleDb [CreateArticle 7 draftRequest 11])))"
    by (simp only: tr1) (simp add: rows)
  have r2: "(a_publishedAt (helloArticle DRAFT None) \<noteq> None)
             = everPublished 41 (articleTrace (\<lambda>t. t) sampleDb [CreateArticle 7 draftRequest 11])"
    using trace_fact [OF p2] by (simp only: ident)
  have r2': "a_publishedAt (helloArticle DRAFT None) = None"
    by (simp add: ident)
  have upd: "updateArticle (\<lambda>t. t) (helloDb DRAFT None) 8 41 publishUpdate 11 ''AUTHOR''
      = Some (Inr (helloArticle PUBLISHED (Some 8)), helloDb PUBLISHED (Some 8))"
    by (simp add: updateArticle_def updatedSlug_def publishUpdate_def articleUpdate_def
        updateRow_def findUnique_def helloDb_def helloArticle_def sampleDb_def)
  have p3: "findUnique a_id (articles (helloDb DRAFT None)) 41 = Some (helloArticle DRAFT None)
      \<and> updateArticle (\<lambda>t. t) (helloDb DRAFT None) 8 41 publishUpdate 11 ''AUTHOR''
          = Some (Inr (helloArticle PUBLISHED (Some 8)), helloDb PUBLISHED (Some 8))"
    using look upd by simp
  have r3: "a_publishedAt (helloArticle PUBLISHED (Some 8)) = Some 8"
    using update_fact [OF p3] by (simp add: publishUpdate_def ident)
  have p4: "findUnique a_id (articles (helloDb PUBLISHED (Some 8))) 41
              = Some (helloArticle PUBLISHED (Some 8))
      \<and> a_publishedAt (helloArticle PUBLISHED (Some 8)) \<noteq> None"
    using look by (simp add: ident)
  have r4: "\<exists>a'. findUnique a_id (articles (helloDb ARCHIVED (Some 8))) 41 = Some a'
          \<and> a_publishedAt a' \<noteq> None"
    using keep_fact [OF p4, of "\<lambda>t. t" "ArchiveArticle 41"] by (simp only: hello_steps)
  from r1 r1' r2 r2' r3 r4 show ?thesis by blast
qed

text \<open>
  C10. \<open>publishArticle\<close> writes the current time into \<open>publishedAt\<close> whatever was there,
  also for an article already published; \<open>updateArticle\<close> with status PUBLISHED keeps a
  \<open>publishedAt\<close> that is set (and such an update, with no title change, does return for
  the author or an admin). So on an article published at \<open>t\<close>, at a later time the two
  paths leave different publication times.
\<close>

theorem publish_paths_disagree:
  "(findUnique a_id (articles db) i = Some a \<longrightarrow>
      fst (publishArticle db now i) = Inr (a\<lparr>a_status := PUBLISHED, a_publishedAt := Some now\<rparr>)
      \<and> map_option a_publishedAt (findUnique a_id (articles (snd (publishArticle db now i))) i)
          = Some (Some now))
   \<and> (findUnique a_id (articles db) i = Some a \<and> a_publishedAt a = Some t
        \<and> uar_status upd = Some PUBLISHED
        \<and> updateArticle L db now i upd userId userRole = Some (Inr a', db') \<longrightarrow>
      a_publishedAt a' = Some t
      \<and> map_option a_publishedAt (findUnique a_id (articles db') i) = Some (Some t))
   \<and> (findUnique a_id (articles db) i = Some a \<and> (a_authorId a = userId \<or> userRole = ''ADMIN'')
        \<and> uar_title upd = None \<longrightarrow>
      (\<exists>a' db'. updateArticle L db now i upd userId userRole = Some (Inr a', db')))
   \<and> (findUnique a_id (articles db) i = Some a \<and> a_publishedAt a = Some t \<and> t \<noteq> now
        \<and> uar_status upd = Some PUBLISHED
        \<and> updateArticle L db now i upd userId userRole = Some (Inr a', db') \<longrightarrow>
      map_option a_publishedAt (findUnique a_id (articles db') i)
        \<noteq> map_option a_publishedAt (findUnique a_id (articles (snd (publishArticle db now i))) i))"
proof -
  have pub: "findUnique a_id (articles db) i = Some a \<Longrightarrow>
      fst (publishArticle db now i) = Inr (a\<lparr>a_status := PUBLISHED, a_publishedAt := Some now\<rparr>)
      \<and> map_option a_publishedAt (findUnique a_id (articles (snd (publishArticle db now i))) i)
          = Some (Some now)"
    by (simp add: lookup_after_publish) (simp add: publishArticle_def)
  have upd: "a_publishedAt a' = Some t
      \<and> map_option a_publishedAt (findUnique a_id (articles db') i) = Some (Some t)"
    if "findUnique a_id (articles db) i = Some a" "a_publishedAt a = Some t"
       "uar_status upd = Some PUBLISHED"
       "updateArticle L db now i upd userId userRole = Some (Inr a', db')"
    using that
    by (auto simp: updateArticle_def findUnique_updateRow articleUpdate_def
        split: option.splits if_splits)
  have ret: "\<exists>a' db'. updateArticle L db now i upd userId userRole = Some (Inr a', db')"
    if "findUnique a_id (articles db) i = Some a" "a_authorId a = userId \<or> userRole = ''ADMIN''"
       "uar_title upd = None"
    using that by (auto simp: updateArticle_def updatedSlug_def)
  from pub upd ret show ?thesis by (intro conjI impI) auto
qed

theorem publish_paths_disagree_witness:
  "map_option a_publishedAt
      (findUnique a_id (articles (snd (publishArticle (helloDb PUBLISHED (Some 8)) 9 41))) 41)
     = Some (Some 9)
   \<and> (\<exists>a' db'. updateArticle (\<lambda>t. t) (helloDb PUBLISHED (Some 8)) 9 41 publishUpdate 11 ''AUTHOR''
                  = Some (Inr a', db')
        \<and> a_publishedAt a' = Some 8
        \<and> map_option a_publishedAt (findUnique a_id (articles db') 41) = Some (Some 8)
        \<and> map_option a_publishedAt (findUnique a_id (articles db') 41)
            \<noteq> map_option a_publishedAt
                (findUnique a_id (articles (snd (publishArticle (helloDb PUBLISHED (Some 8)) 9 41))) 41))"
proof -
  note publish_fact = publish_paths_disagree [THEN conjunct1, rule_format]
  note update_fact = publish_paths_disagree [THEN conjunct2, THEN conjunct1, rule_format]
  note returns_fact =
    publish_paths_disagree [THEN conjunct2, THEN conjunct2, THEN conjunct1, rule_format]
  note differ_fact =
    publish_paths_disagree [THEN conjunct2, THEN conjunct2, THEN conjunct2, rule_format]
  have look: "findUnique a_id (articles (helloDb PUBLISHED (Some 8))) 41
                = Some (helloArticle PUBLISHED (Some 8))"
    by (simp add: findUnique_def helloDb_def helloArticle_def)
  have facts: "a_publishedAt (helloArticle PUBLISHED (Some 8)) = Some 8"
    "a_authorId (helloArticle PUBLISHED (Some 8)) = 11"
    "uar_title publishUpdate = None" "uar_status publishUpdate = Some PUBLISHED"
    by (simp_all add: helloArticle_def publishUpdate_def)
  have r1: "map_option a_publishedAt
      (findUnique a_id (articles (snd (publishArticle (helloDb PUBLISHED (Some 8)) 9 41))) 41)
     = Some (Some 9)"
    using publish_fact [OF look, of 9] by simp
  have p3: "findUnique a_id (articles (helloDb PUBLISHED (Some 8))) 41
                = Some (helloArticle PUBLISHED (Some 8))
      \<and> (a_authorId (helloArticle PUBLISHED (Some 8)) = 11 \<or> ''AUTHOR'' = ''ADMIN'')
      \<and> uar_title publishUpdate = None"
    using look facts by simp
  obtain a' db' where ret: "updateArticle (\<lambda>t. t) (helloDb PUBLISHED (Some 8)) 9 41 publishUpdate
      11 ''AUTHOR'' = Some (Inr a', db')"
    using returns_fact [OF p3, of "\<lambda>t. t" 9] by blast
  have p2: "findUnique a_id (articles (helloDb PUBLISHED (Some 8))) 41
                = Some (helloArticle PUBLISHED (Some 8))
      \<and> a_publishedAt (helloArticle PUBLISHED (Some 8)) = Some 8
      \<and> uar_status publishUpdate = Some PUBLISHED
      \<and> updateArticle (\<lambda>t. t) (helloDb PUBLISHED (Some 8)) 9 41 publishUpdate 11 ''AUTHOR''
           = Some (Inr a', db')"
    using look facts ret by simp
  have r2: "a_publishedAt a' = Some 8
        \<and> map_option a_publishedAt (findUnique a_id (articles db') 41) = Some (Some 8)"
    by (rule update_fact [OF p2])
  have p4: "findUnique a_id (articles (helloDb PUBLISHED (Some 8))) 41
                = Some (helloArticle PUBLISHED (Some 8))
      \<and> a_publishedAt (helloArticle PUBLISHED (Some 8)) = Some 8 \<and> (8::nat) \<noteq> 9
      \<and> uar_status publishUpdate = Some PUBLISHED
      \<and> updateArticle (\<lambda>t. t) (helloDb PUBLISHED (Some 8)) 9 41 publishUpdate 11 ''AUTHOR''
           = Some (Inr a', db')"
    using look facts ret by simp
  have r3: "map_option a_publishedAt (findUnique a_id (articles db') 41)
            \<noteq> map_option a_publishedAt
                (findUnique a_id (articles (snd (publishArticle (helloDb PUBLISHED (Some 8)) 9 41))) 41)"
    by (rule differ_fact [OF p4])
  from r1 ret r2 r3 show ?thesis by blast
qed

section \<open>Pagination: results\<close>


end
